theory Spec2Isabelle
  imports Main "HOL-Library.Word" "HOL-Library.AList"
begin

unbundle bit_operations_syntax

section \<open>The disk writer of the relay: data model\<close>

text \<open>
  The model follows \<^verbatim>\<open>diskwriter/diskwriter.go\<close>.  Everything the code asks of
  the outside world (the clock, the file system, the container muxer, the relay's
  tracks and the room's notification channel) is an explicit environment: the answers
  of the outside world are fields of the record \<open>env\<close>, and every call that leaves the
  package is appended to its \<open>trace\<close>, oldest first.
\<close>

type_synonym bytes = "8 word list"

text \<open>\<^verbatim>\<open>*group.Group\<close>: a pointer (compared with \<^verbatim>\<open>!=\<close> in PushConn) and its name.\<close>

datatype group = Group (gaddr: nat) (Name: string)

text \<open>The codec descriptor returned by \<^verbatim>\<open>remote.Codec()\<close>.\<close>

record codec =
  MimeType :: string
  ClockRate :: "32 word"
  Channels :: "16 word"

text \<open>\<^verbatim>\<open>conn.UpTrack\<close>, the relay's track: its identity and its codec.\<close>

record upTrack =
  tid :: nat
  Codec :: codec

text \<open>\<^verbatim>\<open>conn.Up\<close>, the relay's connection: its id and what \<^verbatim>\<open>AddLocal\<close> answers.\<close>

record up =
  Id :: string
  AddLocal_err :: "string option"

text \<open>
  A \<^verbatim>\<open>webm.BlockWriteCloser\<close>: the writers that \<^verbatim>\<open>NewSimpleBlockWriter\<close> returns for
  a file are told apart by the file and their position in the returned slice.
\<close>

datatype blockWriter = BlockWriter (wfile: string) (windex: nat)

text \<open>The fields of \<^verbatim>\<open>webm.TrackEntry\<close> that the code fills in.\<close>

datatype track_media = Audio nat "64 word" | Video "64 word" "64 word"

record trackEntry =
  entry_Name :: string
  TrackNumber :: "64 word"
  CodecID :: string
  TrackType :: "64 word"
  media :: track_media

datatype error =
    DiskClientClosed
  | MultipleVideoTracks
  | CouldntCreateFile
  | UnknownTrackType
  | UnexpectedWriters
  | ErrKeyframeNeeded
  | OsError string
  | MuxerError string
  | WriteError string
  | UpError string
  | DivideByZero

fun Error :: "error \<Rightarrow> string" where
  "Error DiskClientClosed = ''disk client is closed''"
| "Error MultipleVideoTracks = ''multiple video tracks not supported''"
| "Error CouldntCreateFile = ''couldn't create file''"
| "Error UnknownTrackType = ''unknown track type''"
| "Error UnexpectedWriters = ''unexpected number of writers''"
| "Error ErrKeyframeNeeded = ''keyframe needed''"
| "Error (OsError m) = m"
| "Error (MuxerError m) = m"
| "Error (WriteError m) = m"
| "Error (UpError m) = m"
| "Error DivideByZero = ''runtime error: integer divide by zero''"

text \<open>What \<^verbatim>\<open>os.OpenFile\<close> with \<^verbatim>\<open>O_WRONLY|O_CREATE|O_EXCL\<close> does for a path.\<close>

datatype open_result = OpenOk | ErrExist | ErrOther string

datatype event =
    WallOps group string
  | LogPrintln string
  | FileCreated string
  | FileClosed string
  | MuxerCreated string "trackEntry list"
  | WriterClosed blockWriter
  | BlockWritten blockWriter bool int bytes
  | TrackAddLocal upTrack
  | TrackDelLocal upTrack
  | UpAddLocal up
  | UpDelLocal up
  | DelClient string
  | MkdirAll string

record env =
  Directory :: string
  now :: int
  goos_windows :: bool
  Format :: "string \<Rightarrow> int \<Rightarrow> string"
  fs :: "string \<Rightarrow> open_result"
  mkdir_result :: "string \<Rightarrow> string option"
  muxer_result :: "string \<Rightarrow> trackEntry list \<Rightarrow> string + nat"
  write_result :: "blockWriter \<Rightarrow> bool \<Rightarrow> int \<Rightarrow> bytes \<Rightarrow> string option"
  trace :: "event list"

definition emit :: "event \<Rightarrow> env \<Rightarrow> env" where
  "emit e E = E\<lparr>trace := trace E @ [e]\<rparr>"

type_synonym sample = "bytes \<times> 32 word"

text \<open>
  A track recorder.  The sample builder is a library: it is modelled by the samples
  that are ready to be popped, oldest first (\<open>None\<close> is the nil builder).
\<close>

record diskTrack =
  remote :: upTrack
  writer :: "blockWriter option"
  builder :: "sample list option"
  origin :: "64 word"
  lastKf :: "32 word"

record diskConn =
  client_group :: group
  directory :: string
  label :: string
  hasVideo :: bool
  ofile :: "string option"
  conn_remote :: up
  tracks :: "diskTrack list"
  width :: "32 word"
  height :: "32 word"
  lastWarning :: int

record Client =
  cgroup :: group
  cid :: string
  down :: "(string \<times> diskConn) list"
  closed :: bool

subsection \<open>Codec names\<close>

text \<open>
  \<^verbatim>\<open>strings.ToLower\<close> on the bytes of the MIME type: the ASCII capitals are folded,
  every other byte is kept.
\<close>

definition lower_char :: "char \<Rightarrow> char" where
  "lower_char ch =
     (let n = (of_char ch :: nat) in if 65 \<le> n \<and> n \<le> 90 then char_of (n + 32) else ch)"

definition ToLower :: "string \<Rightarrow> string" where
  "ToLower s = map lower_char s"

datatype kind = Opus | VP8 | Unsupported

definition kind_of :: "codec \<Rightarrow> kind" where
  "kind_of c =
     (let m = ToLower (MimeType c) in
      if m = ''audio/opus'' then Opus
      else if m = ''video/vp8'' then VP8
      else Unsupported)"

subsection \<open>Time\<close>

text \<open>
  A \<^verbatim>\<open>time.Time\<close> is the number of nanoseconds since the zero time, which is the
  value of a fresh \<open>lastWarning\<close>.  \<^verbatim>\<open>Time.Sub\<close> saturates at the ends of the
  64-bit \<^verbatim>\<open>Duration\<close>.
\<close>

definition maxDuration :: int where
  "maxDuration = 2 ^ 63 - 1"

definition minDuration :: int where
  "minDuration = - (2 ^ 63)"

definition Sub :: "int \<Rightarrow> int \<Rightarrow> int" where
  "Sub t u = (let d = t - u in
     if d > maxDuration then maxDuration else if d < minDuration then minDuration else d)"

definition Second :: int where
  "Second = 1000000000"

section \<open>The connection recorder\<close>

subsection \<open>warn\<close>

definition warn :: "env \<Rightarrow> diskConn \<Rightarrow> string \<Rightarrow> env \<times> diskConn" where
  "warn E c message =
     (if Sub (now E) (lastWarning c) < 10 * Second then (E, c)
      else (emit (WallOps (client_group c) message) (emit (LogPrintln message) E),
            c\<lparr>lastWarning := now E\<rparr>))"

text \<open>A run of warn calls, each at its own clock reading.\<close>

fun warns :: "env \<Rightarrow> diskConn \<Rightarrow> (int \<times> string) list \<Rightarrow> env \<times> diskConn" where
  "warns E c [] = (E, c)"
| "warns E c ((t, m) # rest) = (case warn (E\<lparr>now := t\<rparr>) c m of (E', c') \<Rightarrow> warns E' c' rest)"

text \<open>The notifications that reached the room, oldest first.\<close>

fun notifications :: "event list \<Rightarrow> string list" where
  "notifications [] = []"
| "notifications (WallOps g m # es) = m # notifications es"
| "notifications (e # es) = notifications es"

subsection \<open>openDiskFile\<close>

fun decimal :: "nat \<Rightarrow> string" where
  "decimal n =
     (if n < 10 then [char_of (48 + n)]
      else decimal (n div 10) @ [char_of (48 + n mod 10)])"

text \<open>\<^verbatim>\<open>%02d\<close> of a counter that is not negative.\<close>

definition sprint02d :: "nat \<Rightarrow> string" where
  "sprint02d n = (let s = decimal n in replicate (2 - length s) (CHR ''0'') @ s)"

text \<open>\<^verbatim>\<open>filepath.Join\<close> of a directory and a file name, without the cleaning of the path.\<close>

definition Join :: "string \<Rightarrow> string \<Rightarrow> string" where
  "Join d f = (if d = [] then f else d @ ''/'' @ f)"

definition candidate :: "string \<Rightarrow> string \<Rightarrow> nat \<Rightarrow> string" where
  "candidate dir filename counter =
     Join dir (if counter = 0 then filename @ ''.webm''
               else filename @ ''-'' @ sprint02d counter @ ''.webm'')"

definition OpenFile :: "env \<Rightarrow> string \<Rightarrow> (error + string) \<times> env" where
  "OpenFile E fn =
     (case fs E fn of
        OpenOk \<Rightarrow> (Inr fn, emit (FileCreated fn) (E\<lparr>fs := (fs E)(fn := ErrExist)\<rparr>))
      | ErrExist \<Rightarrow> (Inl (OsError ''file exists''), E)
      | ErrOther m \<Rightarrow> (Inl (OsError m), E))"

function openLoop :: "env \<Rightarrow> string \<Rightarrow> string \<Rightarrow> nat \<Rightarrow> (error + string) \<times> env" where
  "openLoop E dir filename counter =
     (if counter < 100 then
        (case fs E (candidate dir filename counter) of
           ErrExist \<Rightarrow> openLoop E dir filename (counter + 1)
         | _ \<Rightarrow> OpenFile E (candidate dir filename counter))
      else (Inl CouldntCreateFile, E))"
  by pat_completeness auto
termination
  by (relation "measure (\<lambda>(E, d, f, counter). 100 - counter)") auto

declare openLoop.simps [simp del]

definition filename_of :: "env \<Rightarrow> string \<Rightarrow> string" where
  "filename_of E lbl =
     (let filenameFormat =
            (if goos_windows E then ''2006-01-02T15-04-05-000'' else ''2006-01-02T15:04:05.000'');
          filename = Format E filenameFormat (now E)
      in if lbl \<noteq> [] then filename @ ''-'' @ lbl else filename)"

definition openDiskFile :: "env \<Rightarrow> string \<Rightarrow> string \<Rightarrow> (error + string) \<times> env" where
  "openDiskFile E dir lbl = openLoop E dir (filename_of E lbl) 0"


subsection \<open>reopen and Close\<close>

text \<open>The loop shared by reopen and Close: every writer that is set is closed and cleared.\<close>

fun closeWriters :: "env \<Rightarrow> diskTrack list \<Rightarrow> env \<times> diskTrack list" where
  "closeWriters E [] = (E, [])"
| "closeWriters E (t # ts) =
     (case writer t of
        Some w \<Rightarrow>
          (case closeWriters (emit (WriterClosed w) E) ts of
             (E', ts') \<Rightarrow> (E', t\<lparr>writer := None\<rparr> # ts'))
      | None \<Rightarrow> (case closeWriters E ts of (E', ts') \<Rightarrow> (E', t # ts')))"

definition reopen :: "env \<Rightarrow> diskConn \<Rightarrow> error option \<times> env \<times> diskConn" where
  "reopen E c =
     (case closeWriters E (tracks c) of
        (E1, ts) \<Rightarrow>
          (let c1 = c\<lparr>tracks := ts, ofile := None\<rparr> in
           case openDiskFile E1 (directory c1) (label c1) of
             (Inl err, E2) \<Rightarrow> (Some err, E2, c1)
           | (Inr f, E2) \<Rightarrow> (None, E2, c1\<lparr>ofile := Some f\<rparr>)))"

definition Close :: "env \<Rightarrow> diskConn \<Rightarrow> env \<times> diskConn" where
  "Close E c =
     (case closeWriters (emit (UpDelLocal (conn_remote c)) E) (tracks c) of
        (E1, ts) \<Rightarrow>
          (fold (\<lambda>t. emit (TrackDelLocal (remote t))) ts E1, c\<lparr>tracks := ts\<rparr>))"

subsection \<open>initWriter of the connection\<close>

definition entry_of :: "nat \<Rightarrow> kind \<Rightarrow> codec \<Rightarrow> 32 word \<Rightarrow> 32 word \<Rightarrow> trackEntry" where
  "entry_of i k cd w h =
     (if k = Opus then
        \<lparr>entry_Name = ''Audio'', TrackNumber = of_nat (i + 1), CodecID = ''A_OPUS'',
         TrackType = 2, media = Audio (unat (ClockRate cd)) (ucast (Channels cd))\<rparr>
      else
        \<lparr>entry_Name = ''Video'', TrackNumber = of_nat (i + 1), CodecID = ''V_VP8'',
         TrackType = 1, media = Video (ucast w) (ucast h)\<rparr>)"

fun entries_from :: "nat \<Rightarrow> diskTrack list \<Rightarrow> 32 word \<Rightarrow> 32 word \<Rightarrow> error + trackEntry list" where
  "entries_from i [] w h = Inr []"
| "entries_from i (t # ts) w h =
     (case kind_of (Codec (remote t)) of
        Unsupported \<Rightarrow> Inl UnknownTrackType
      | k \<Rightarrow>
          (case entries_from (i + 1) ts w h of
             Inl err \<Rightarrow> Inl err
           | Inr es \<Rightarrow> Inr (entry_of i k (Codec (remote t)) w h # es)))"

definition assign_writers :: "string \<Rightarrow> diskTrack list \<Rightarrow> diskTrack list" where
  "assign_writers f ts = map (\<lambda>(i, t). t\<lparr>writer := Some (BlockWriter f i)\<rparr>) (enumerate 0 ts)"

definition close_file :: "env \<Rightarrow> diskConn \<Rightarrow> string \<Rightarrow> env \<times> diskConn" where
  "close_file E c f = (emit (FileClosed f) E, c\<lparr>ofile := None\<rparr>)"

text \<open>
  After a successful reopen the file is set; the branch for an unset file stands for
  the nil dereference the source would make there.
\<close>

definition conn_initWriter ::
  "env \<Rightarrow> diskConn \<Rightarrow> 32 word \<Rightarrow> 32 word \<Rightarrow> error option \<times> env \<times> diskConn" where
  "conn_initWriter E c w h =
     (if ofile c \<noteq> None \<and> w = width c \<and> h = height c then (None, E, c)
      else
        (case entries_from 0 (tracks c) w h of
           Inl err \<Rightarrow> (Some err, E, c)
         | Inr entries \<Rightarrow>
             (case reopen E c of
                (Some err, E1, c1) \<Rightarrow> (Some err, E1, c1)
              | (None, E1, c1) \<Rightarrow>
                  (case ofile c1 of
                     None \<Rightarrow> (Some (OsError ''invalid argument''), E1, c1)
                   | Some f \<Rightarrow>
                       (case muxer_result E1 f entries of
                          Inl m \<Rightarrow>
                            (case close_file E1 c1 f of (E2, c2) \<Rightarrow> (Some (MuxerError m), E2, c2))
                        | Inr n \<Rightarrow>
                            (let E2 = emit (MuxerCreated f entries) E1 in
                             if n \<noteq> length (tracks c1) then
                               (case close_file E2 c1 f of
                                  (E3, c3) \<Rightarrow> (Some UnexpectedWriters, E3, c3))
                             else
                               (None, E2,
                                c1\<lparr>width := w, height := h,
                                   tracks := assign_writers f (tracks c1)\<rparr>)))))))"

section \<open>The track recorder\<close>

definition set_track :: "diskConn \<Rightarrow> nat \<Rightarrow> diskTrack \<Rightarrow> diskConn" where
  "set_track c i t = c\<lparr>tracks := (tracks c)[i := t]\<rparr>"

definition vp8_keyframe :: "bytes \<Rightarrow> bool" where
  "vp8_keyframe data = ((data ! 0) AND 1 = 0)"

definition vp8_raw :: "bytes \<Rightarrow> 32 word" where
  "vp8_raw data =
     ucast (data ! 6) OR push_bit 8 (ucast (data ! 7)) OR
     push_bit 16 (ucast (data ! 8)) OR push_bit 24 (ucast (data ! 9))"

definition track_initWriter ::
  "env \<Rightarrow> diskConn \<Rightarrow> nat \<Rightarrow> bytes \<Rightarrow> error option \<times> env \<times> diskConn" where
  "track_initWriter E c i data =
     (case kind_of (Codec (remote (tracks c ! i))) of
        VP8 \<Rightarrow>
          if length data < 10 then (None, E, c)
          else if \<not> vp8_keyframe data then (None, E, c)
          else
            (let raw = vp8_raw data;
                 w = raw AND 0x3FFF;
                 h = drop_bit 16 raw AND 0x3FFF
             in conn_initWriter E c w h)
      | _ \<Rightarrow> (None, E, c))"

text \<open>One turn of the loop of WriteRTP either goes on with the next sample or returns.\<close>

datatype outcome = Continue bool env diskConn | Return "error option" env diskConn

text \<open>
  The end of the loop body (from the test of the writer to the write).  A clock rate
  under 1000 makes the divisor zero: the division panics in the source, which is the
  result \<open>DivideByZero\<close> here.
\<close>

definition write_sample :: "env \<Rightarrow> diskConn \<Rightarrow> nat \<Rightarrow> bool \<Rightarrow> bool \<Rightarrow> sample \<Rightarrow> outcome" where
  "write_sample E c i kfNeeded keyframe s =
     (case s of (data, ts) \<Rightarrow>
        (let t = tracks c ! i in
         case writer t of
           None \<Rightarrow> Return (if \<not> keyframe then Some ErrKeyframeNeeded else None) E c
         | Some w \<Rightarrow>
             (let org = (if origin t = 0 then ucast ts OR push_bit 32 1 else origin t);
                  c' = set_track c i (t\<lparr>origin := org\<rparr>);
                  ts' = ts - ucast org;
                  k = ClockRate (Codec (remote t)) div 1000
              in if k = 0 then Return (Some DivideByZero) E c'
                 else
                   (let tm = uint (ts' div k);
                        E' = emit (BlockWritten w keyframe tm data) E
                    in case write_result E w keyframe tm data of
                         Some m \<Rightarrow> Return (Some (WriteError m)) E' c'
                       | None \<Rightarrow> Continue kfNeeded E' c'))))"

definition failed :: "error \<Rightarrow> env \<Rightarrow> diskConn \<Rightarrow> outcome" where
  "failed err E c =
     (case warn E c (''Write to disk '' @ Error err) of (E', c') \<Rightarrow> Return (Some err) E' c')"

definition body :: "env \<Rightarrow> diskConn \<Rightarrow> nat \<Rightarrow> bool \<Rightarrow> sample \<Rightarrow> outcome" where
  "body E c i kfNeeded s =
     (case s of (data, ts) \<Rightarrow>
        (let t = tracks c ! i in
         case kind_of (Codec (remote t)) of
           VP8 \<Rightarrow>
             if length data < 1 then Continue kfNeeded E c
             else if vp8_keyframe data then
               (case track_initWriter E c i data of
                  (Some err, E1, c1) \<Rightarrow> failed err E1 c1
                | (None, E1, c1) \<Rightarrow>
                    write_sample E1 (set_track c1 i ((tracks c1 ! i)\<lparr>lastKf := ts\<rparr>))
                      i kfNeeded True s)
             else if writer t \<noteq> None then
               (let delta = ts - lastKf t in
                write_sample E c i
                  (if delta AND 0x80000000 = 0 \<and> delta > 10 * 90000 then True else kfNeeded)
                  False s)
             else write_sample E c i kfNeeded False s
         | _ \<Rightarrow>
             if writer t = None \<and> \<not> hasVideo c then
               (case conn_initWriter E c 0 0 of
                  (Some err, E1, c1) \<Rightarrow> failed err E1 c1
                | (None, E1, c1) \<Rightarrow> write_sample E1 c1 i kfNeeded True s)
             else write_sample E c i kfNeeded True s))"

definition set_builder :: "diskConn \<Rightarrow> nat \<Rightarrow> sample list \<Rightarrow> diskConn" where
  "set_builder c i q = set_track c i ((tracks c ! i)\<lparr>builder := Some q\<rparr>)"

text \<open>
  The loop pops the ready samples one by one; what it has not popped when it returns
  stays in the builder.
\<close>

fun loop :: "env \<Rightarrow> diskConn \<Rightarrow> nat \<Rightarrow> bool \<Rightarrow> sample list \<Rightarrow> error option \<times> env \<times> diskConn" where
  "loop E c i kfNeeded [] =
     ((if kfNeeded then Some ErrKeyframeNeeded else None), E, set_builder c i [])"
| "loop E c i kfNeeded (s # q) =
     (case body E c i kfNeeded s of
        Continue kfNeeded' E' c' \<Rightarrow> loop E' c' i kfNeeded' q
      | Return r E' c' \<Rightarrow> (r, E', set_builder c' i q))"

text \<open>
  An RTP packet, as far as the recorder sees it: whether it survives the copy of
  clonePacket, and the samples that its arrival makes ready in the builder.
\<close>

record packet =
  clonable :: bool
  completes :: "sample list"

definition WriteRTP :: "env \<Rightarrow> diskConn \<Rightarrow> nat \<Rightarrow> packet \<Rightarrow> error option \<times> env \<times> diskConn" where
  "WriteRTP E c i p =
     (case builder (tracks c ! i) of
        None \<Rightarrow> (None, E, c)
      | Some q \<Rightarrow>
          if \<not> clonable p then (None, E, c)
          else loop E c i False (q @ completes p))"

text \<open>A run of packets, each for one track of the connection; errors do not stop the relay.\<close>

fun WriteRTPs :: "env \<Rightarrow> diskConn \<Rightarrow> (nat \<times> packet) list \<Rightarrow> env \<times> diskConn" where
  "WriteRTPs E c [] = (E, c)"
| "WriteRTPs E c ((i, p) # ps) =
     (case WriteRTP E c i p of (r, E', c') \<Rightarrow> WriteRTPs E' c' ps)"

section \<open>Construction\<close>

definition newTrack :: "upTrack \<Rightarrow> diskTrack" where
  "newTrack r = \<lparr>remote = r, writer = None, builder = Some [], origin = 0, lastKf = 0\<rparr>"

fun newTracks ::
  "env \<Rightarrow> group \<Rightarrow> bool \<Rightarrow> diskTrack list \<Rightarrow> upTrack list \<Rightarrow>
   (error + bool \<times> diskTrack list) \<times> env" where
  "newTracks E g hv acc [] = (Inr (hv, acc), E)"
| "newTracks E g hv acc (r # rs) =
     (case kind_of (Codec r) of
        Opus \<Rightarrow> newTracks (emit (TrackAddLocal r) E) g hv (acc @ [newTrack r]) rs
      | VP8 \<Rightarrow>
          if hv then (Inl MultipleVideoTracks, E)
          else newTracks (emit (TrackAddLocal r) E) g True (acc @ [newTrack r]) rs
      | Unsupported \<Rightarrow>
          newTracks (emit (WallOps g (''Cannot record codec '' @ MimeType (Codec r))) E)
            g hv acc rs)"

definition newDiskConn ::
  "env \<Rightarrow> Client \<Rightarrow> string \<Rightarrow> string \<Rightarrow> up \<Rightarrow> upTrack list \<Rightarrow> (error + diskConn) \<times> env" where
  "newDiskConn E cl dir lbl u remoteTracks =
     (case newTracks E (cgroup cl) False [] remoteTracks of
        (Inl err, E1) \<Rightarrow> (Inl err, E1)
      | (Inr (hv, ts), E1) \<Rightarrow>
          (let E2 = emit (UpAddLocal u) E1 in
           case AddLocal_err u of
             Some m \<Rightarrow> (Inl (UpError m), E2)
           | None \<Rightarrow>
               (Inr \<lparr>client_group = cgroup cl, directory = dir, label = lbl, hasVideo = hv,
                     ofile = None, conn_remote = u, tracks = ts, width = 0, height = 0,
                     lastWarning = 0\<rparr>, E2)))"

section \<open>The recording client\<close>

definition Client_Close :: "env \<Rightarrow> Client \<Rightarrow> env \<times> Client" where
  "Client_Close E cl =
     (fold (\<lambda>(k, d) E'. fst (Close E' d)) (down cl) E, cl\<lparr>down := [], closed := True\<rparr>)"

definition Kick :: "env \<Rightarrow> Client \<Rightarrow> env \<times> Client" where
  "Kick E cl = (case Client_Close E cl of (E', cl') \<Rightarrow> (emit (DelClient (cid cl')) E', cl'))"

definition PushConn ::
  "env \<Rightarrow> Client \<Rightarrow> group \<Rightarrow> string \<Rightarrow> up option \<Rightarrow> upTrack list \<Rightarrow> string \<Rightarrow>
   error option \<times> env \<times> Client" where
  "PushConn E cl g ident u remoteTracks lbl =
     (if cgroup cl \<noteq> g then (None, E, cl)
      else if closed cl then (Some DiskClientClosed, E, cl)
      else
        (case (case map_of (down cl) ident of
                 Some old \<Rightarrow> (fst (Close E old), cl\<lparr>down := AList.delete ident (down cl)\<rparr>)
               | None \<Rightarrow> (E, cl)) of
           (E1, cl1) \<Rightarrow>
             (case u of
                None \<Rightarrow> (None, E1, cl1)
              | Some u' \<Rightarrow>
                  (let dir = Join (Directory E1) (Name (cgroup cl1));
                       E2 = emit (MkdirAll dir) E1
                   in case mkdir_result E2 dir of
                        Some m \<Rightarrow>
                          (Some (OsError m), emit (WallOps g (''Write to disk: '' @ m)) E2, cl1)
                      | None \<Rightarrow>
                          (case newDiskConn E2 cl1 dir lbl u' remoteTracks of
                             (Inl err, E3) \<Rightarrow>
                               (Some err,
                                emit (WallOps g (''Write to disk: '' @ Error err)) E3, cl1)
                           | (Inr d, E3) \<Rightarrow>
                               (None, E3,
                                cl1\<lparr>down := AList.update (Id u') d (down cl1)\<rparr>))))))"

text \<open>A run of attach calls on one client, with the result of each.\<close>

type_synonym attach = "group \<times> string \<times> up option \<times> upTrack list \<times> string"

fun PushConns :: "env \<Rightarrow> Client \<Rightarrow> attach list \<Rightarrow> error option list \<times> env \<times> Client" where
  "PushConns E cl [] = ([], E, cl)"
| "PushConns E cl ((g, ident, u, remoteTracks, lbl) # calls) =
     (case PushConn E cl g ident u remoteTracks lbl of
        (r, E', cl') \<Rightarrow>
          (case PushConns E' cl' calls of (rs, E'', cl'') \<Rightarrow> (r # rs, E'', cl'')))"


section \<open>Observations on states and traces\<close>

text \<open>The environment and the connection that a turn of the loop leaves behind.\<close>

fun outcome_env :: "outcome \<Rightarrow> env" where
  "outcome_env (Continue k E c) = E"
| "outcome_env (Return r E c) = E"

fun outcome_conn :: "outcome \<Rightarrow> diskConn" where
  "outcome_conn (Continue k E c) = c"
| "outcome_conn (Return r E c) = c"

text \<open>The blocks passed to block writers, oldest first, and those of one track.\<close>

fun blocks :: "event list \<Rightarrow> (blockWriter \<times> bool \<times> int \<times> bytes) list" where
  "blocks [] = []"
| "blocks (BlockWritten w k tm d # es) = (w, k, tm, d) # blocks es"
| "blocks (e # es) = blocks es"

definition track_blocks :: "nat \<Rightarrow> event list \<Rightarrow> (blockWriter \<times> bool \<times> int \<times> bytes) list" where
  "track_blocks j tr = filter (\<lambda>b. windex (fst b) = j) (blocks tr)"

text \<open>
  What no operation on a connection changes: the tracks of the relay behind the track
  recorders, the video flag, and every origin that has been recorded.
\<close>

definition stable :: "diskConn \<Rightarrow> diskConn \<Rightarrow> bool" where
  "stable c c' =
     (map remote (tracks c') = map remote (tracks c) \<and> hasVideo c' = hasVideo c \<and>
      list_all2 (\<lambda>t t'. origin t \<noteq> 0 \<longrightarrow> origin t' = origin t) (tracks c) (tracks c'))"

text \<open>A track with its writer taken away.\<close>

definition unset :: "diskTrack \<Rightarrow> diskTrack" where
  "unset t = t\<lparr>writer := None\<rparr>"

text \<open>
  The invariant of the data model: the file and the writers of the tracks are all
  absent, or all present, the writers being those of the muxer that was created on
  this file with the track entries for the current width and height.
\<close>

definition conn_inv :: "env \<Rightarrow> diskConn \<Rightarrow> bool" where
  "conn_inv E c =
     (case ofile c of
        None \<Rightarrow> list_all (\<lambda>t. writer t = None) (tracks c)
      | Some f \<Rightarrow>
          map writer (tracks c) = map (\<lambda>j. Some (BlockWriter f j)) [0..<length (tracks c)] \<and>
          (case entries_from 0 (tracks c) (width c) (height c) of
             Inl err \<Rightarrow> False
           | Inr es \<Rightarrow> MuxerCreated f es \<in> set (trace E)))"

text \<open>
  What the loop of newDiskConn does to the relay for one track of the list: a track
  recorder is registered with an Opus or a VP8 track, the operators are told about
  any other track.
\<close>

definition is_video :: "upTrack \<Rightarrow> bool" where
  "is_video r = (kind_of (Codec r) = VP8)"

definition construction_event :: "group \<Rightarrow> upTrack \<Rightarrow> event" where
  "construction_event g r =
     (case kind_of (Codec r) of
        Unsupported \<Rightarrow> WallOps g (''Cannot record codec '' @ MimeType (Codec r))
      | _ \<Rightarrow> TrackAddLocal r)"

text \<open>The tracks of a list that come before its second video track.\<close>

definition before_second_video :: "upTrack list \<Rightarrow> upTrack list" where
  "before_second_video rs =
     takeWhile (\<lambda>r. \<not> is_video r) rs @
     (case dropWhile (\<lambda>r. \<not> is_video r) rs of
        [] \<Rightarrow> []
      | r # rest \<Rightarrow> r # takeWhile (\<lambda>r. \<not> is_video r) rest)"

text \<open>The video tracks with which an event list registers a track recorder, and those
  from which it takes one away.\<close>

fun video_registrations :: "event list \<Rightarrow> upTrack list" where
  "video_registrations [] = []"
| "video_registrations (TrackAddLocal r # es) =
     (if is_video r then r # video_registrations es else video_registrations es)"
| "video_registrations (e # es) = video_registrations es"

fun unregistrations :: "event list \<Rightarrow> upTrack list" where
  "unregistrations [] = []"
| "unregistrations (TrackDelLocal r # es) = r # unregistrations es"
| "unregistrations (e # es) = unregistrations es"

text \<open>
  What closing a connection recorder shows to the relay and to the muxer: the
  recorder is taken off its connection, every writer that is set is closed, and every
  track recorder is taken off its track.
\<close>

definition close_events :: "diskConn \<Rightarrow> event list" where
  "close_events d =
     UpDelLocal (conn_remote d) # map WriterClosed (List.map_filter writer (tracks d)) @
     map (\<lambda>t. TrackDelLocal (remote t)) (tracks d)"

text \<open>
  Whether an event is a block passed to the writer of the track with index \<open>v\<close>, and
  whether it is the creation, on the file of the writer \<open>w\<close>, of a muxer whose entry
  for the track \<open>v\<close> is a video entry of the size that a payload announces.
\<close>

definition on_track :: "nat \<Rightarrow> event \<Rightarrow> bool" where
  "on_track v e = (case e of BlockWritten w kf tm d \<Rightarrow> windex w = v | _ \<Rightarrow> False)"

definition muxer_for :: "blockWriter \<Rightarrow> nat \<Rightarrow> bytes \<Rightarrow> event \<Rightarrow> bool" where
  "muxer_for w v data e =
     (case e of
        MuxerCreated f es \<Rightarrow>
          w = BlockWriter f v \<and> v < length es \<and>
          media (es ! v) =
            Video (ucast (vp8_raw data AND 0x3FFF)) (ucast (drop_bit 16 (vp8_raw data) AND 0x3FFF))
      | _ \<Rightarrow> False)"

text \<open>
  The first block on the track \<open>v\<close> in a run of events, if there is one, is marked as a
  keyframe, carries a payload of at least ten bytes whose first byte has its low bit
  clear, and comes after the creation of the muxer for the size it announces.
\<close>

definition video_first :: "nat \<Rightarrow> event list \<Rightarrow> bool" where
  "video_first v new =
     (case dropWhile (\<lambda>e. \<not> on_track v e) new of
        [] \<Rightarrow> True
      | e # rest \<Rightarrow>
          (case e of
             BlockWritten w kf tm data \<Rightarrow>
               kf \<and> 10 \<le> length data \<and> vp8_keyframe data \<and>
               list_ex (muxer_for w v data) (takeWhile (\<lambda>e. \<not> on_track v e) new)
           | _ \<Rightarrow> True))"

text \<open>
  What holds of a connection with the video track \<open>v\<close> between the turns of the loop,
  \<open>new\<close> being the events since the connection was made: the track \<open>v\<close> is the only
  video track, a writer is the one at the position of its track, and the video track
  has no writer before its first block, unless its clock rate makes every write fail.
\<close>

definition video_pre :: "nat \<Rightarrow> diskConn \<Rightarrow> event list \<Rightarrow> bool" where
  "video_pre v c new =
     (hasVideo c \<and> v < length (tracks c) \<and>
      (\<forall>j < length (tracks c). is_video (remote (tracks c ! j)) = (j = v)) \<and>
      (\<forall>j < length (tracks c). \<forall>w. writer (tracks c ! j) = Some w \<longrightarrow> windex w = j) \<and>
      video_first v new)"

definition video_inv :: "nat \<Rightarrow> diskConn \<Rightarrow> event list \<Rightarrow> bool" where
  "video_inv v c new =
     (video_pre v c new \<and>
      (writer (tracks c ! v) \<noteq> None \<longrightarrow>
         list_ex (on_track v) new \<or>
         unat (ClockRate (Codec (remote (tracks c ! v)))) < 1000))"

section \<open>Concrete environments and inputs\<close>

text \<open>A file system in which exactly the paths of a list are taken.\<close>

definition taken_fs :: "string list \<Rightarrow> string \<Rightarrow> open_result" where
  "taken_fs taken p = (if p \<in> set taken then ErrExist else OpenOk)"

text \<open>
  A quiet world: nothing is on disk, the muxer returns one writer for each entry, and
  every write succeeds.  The clock stands at one minute and prints as \<open>T\<close>.
\<close>

definition env0 :: env where
  "env0 =
     \<lparr>Directory = ''rec'', now = 60 * Second, goos_windows = False,
      Format = (\<lambda>layout t. ''T''), fs = taken_fs [],
      mkdir_result = (\<lambda>d. None), muxer_result = (\<lambda>f es. Inr (length es)),
      write_result = (\<lambda>w k t d. None), trace = []\<rparr>"

definition opus :: codec where
  "opus = \<lparr>MimeType = ''audio/opus'', ClockRate = 48000, Channels = 2\<rparr>"

definition vp8 :: codec where
  "vp8 = \<lparr>MimeType = ''video/VP8'', ClockRate = 90000, Channels = 0\<rparr>"

definition audio0 :: upTrack where
  "audio0 = \<lparr>tid = 0, Codec = opus\<rparr>"

definition video1 :: upTrack where
  "video1 = \<lparr>tid = 1, Codec = vp8\<rparr>"

text \<open>
  A VP8 keyframe that announces 640 by 480 (the start code, then the two 16-bit
  little-endian sizes), one that announces 1280 by 720, and a delta frame.
\<close>

definition kf640 :: bytes where
  "kf640 = [0x10, 0x02, 0x00, 0x9d, 0x01, 0x2a, 0x80, 0x02, 0xe0, 0x01, 0x00]"

definition kf1280 :: bytes where
  "kf1280 = [0x10, 0x02, 0x00, 0x9d, 0x01, 0x2a, 0x00, 0x05, 0xd0, 0x02, 0x00]"

definition delta_frame :: bytes where
  "delta_frame = [0x11, 0x02, 0x00]"

text \<open>A payload of three bytes whose low bit is clear: a keyframe too short to carry sizes.\<close>

definition short_kf :: bytes where
  "short_kf = [0x10, 0x02, 0x00]"

definition group0 :: group where
  "group0 = Group 1 ''room''"

definition up0 :: up where
  "up0 = \<lparr>Id = ''up'', AddLocal_err = None\<rparr>"

definition client0 :: Client where
  "client0 = \<lparr>cgroup = group0, cid = ''c0'', down = [], closed = False\<rparr>"

text \<open>A fresh connection recorder over the given tracks of the relay.\<close>

definition conn0 :: "upTrack list \<Rightarrow> diskConn" where
  "conn0 rs =
     \<lparr>client_group = group0, directory = ''rec/room'', label = [],
      hasVideo = (\<exists>r \<in> set rs. kind_of (Codec r) = VP8), ofile = None, conn_remote = up0,
      tracks = map newTrack rs, width = 0, height = 0, lastWarning = 0\<rparr>"

text \<open>The connection over one audio track, recording into its first file.\<close>

definition audio_conn :: diskConn where
  "audio_conn =
     (conn0 [audio0])\<lparr>ofile := Some ''rec/room/T.webm'',
       tracks := assign_writers ''rec/room/T.webm'' (tracks (conn0 [audio0]))\<rparr>"


text \<open>A second video track, and a track with a codec that is not recorded.\<close>

definition video2 :: upTrack where
  "video2 = \<lparr>tid = 2, Codec = vp8\<rparr>"

definition h264 :: upTrack where
  "h264 = \<lparr>tid = 3, Codec = \<lparr>MimeType = ''video/H264'', ClockRate = 90000, Channels = 0\<rparr>\<rparr>"

text \<open>A client that holds the recording connection, and another group.\<close>

definition recording_client :: Client where
  "recording_client = client0\<lparr>down := [(''up'', audio_conn)]\<rparr>"

definition group1 :: group where
  "group1 = Group 2 ''lobby''"

section \<open>Properties\<close>

subsection \<open>Warnings and file names\<close>

lemma Sub_less_iff: "Sub t u < 10 * Second \<longleftrightarrow> t - u < 10 * Second"
  by (auto simp: Sub_def Let_def maxDuration_def minDuration_def Second_def)

lemma notifications_append:
  "notifications (xs @ ys) = notifications xs @ notifications ys"
  by (induction xs rule: notifications.induct) auto

lemma warn_emits:
  "10 * Second \<le> now E - lastWarning c \<Longrightarrow>
   warn E c m = (emit (WallOps (client_group c) m) (emit (LogPrintln m) E), c\<lparr>lastWarning := now E\<rparr>)"
  by (simp add: warn_def Sub_less_iff)

lemma warn_suppressed: "now E - lastWarning c < 10 * Second \<Longrightarrow> warn E c m = (E, c)"
  by (simp add: warn_def Sub_less_iff)

text \<open>
  Claim C8.  A call of warn emits its notification exactly when at least ten seconds
  lie between the clock and the last emitted warning of the connection, and then
  records the clock as the last warning; otherwise it changes nothing.  On a fresh
  connection, five calls within ten seconds of the first emit one notification, and a
  sixth call ten seconds or more after the first emits the second one.
\<close>

theorem warn_rate_limited:
  "(10 * Second \<le> now E - lastWarning c \<longrightarrow>
      warn E c m =
        (emit (WallOps (client_group c) m) (emit (LogPrintln m) E), c\<lparr>lastWarning := now E\<rparr>)) \<and>
   (now E - lastWarning c < 10 * Second \<longrightarrow> warn E c m = (E, c)) \<and>
   (lastWarning c = 0 \<and> 10 * Second \<le> ta \<and>
    tb - ta < 10 * Second \<and> tc - ta < 10 * Second \<and> td - ta < 10 * Second \<and>
    te - ta < 10 * Second \<and> 10 * Second \<le> tf - ta \<longrightarrow>
      notifications (trace (fst (warns E c
        [(ta, ma), (tb, mb), (tc, mc), (td, md), (te, me), (tf, mf)]))) =
      notifications (trace E) @ [ma, mf])"
  by (simp add: warn_emits warn_suppressed emit_def notifications_append)

lemma openLoop_all_exist:
  "(\<And>k. counter \<le> k \<Longrightarrow> k < 100 \<Longrightarrow> fs E (candidate d f k) = ErrExist) \<Longrightarrow>
   openLoop E d f counter = (Inl CouldntCreateFile, E)"
proof (induction E d f counter rule: openLoop.induct)
  case (1 E dir filename counter)
  show ?case
  proof (cases "counter < 100")
    case True
    have "fs E (candidate dir filename counter) = ErrExist"
      using 1(2)[of counter] True by simp
    moreover have "openLoop E dir filename (counter + 1) = (Inl CouldntCreateFile, E)"
      using 1(1)[OF True] calculation 1(2) by simp
    ultimately show ?thesis using True by (subst openLoop.simps) simp
  next
    case False
    then show ?thesis by (subst openLoop.simps) simp
  qed
qed

lemma openLoop_first:
  "counter \<le> i \<Longrightarrow> i < 100 \<Longrightarrow>
   (\<And>k. counter \<le> k \<Longrightarrow> k < i \<Longrightarrow> fs E (candidate d f k) = ErrExist) \<Longrightarrow>
   fs E (candidate d f i) \<noteq> ErrExist \<Longrightarrow>
   openLoop E d f counter = OpenFile E (candidate d f i)"
proof (induction E d f counter rule: openLoop.induct)
  case (1 E dir filename counter)
  show ?case
  proof (cases "counter = i")
    case True
    then show ?thesis using 1(3,5)
      by (subst openLoop.simps) (simp split: open_result.splits)
  next
    case False
    then have lt: "counter < i" using 1(2) by simp
    then have c100: "counter < 100" using 1(3) by simp
    have ex: "fs E (candidate dir filename counter) = ErrExist"
      using 1(4)[of counter] lt by simp
    have "openLoop E dir filename (counter + 1) = OpenFile E (candidate dir filename i)"
      using 1(1)[OF c100 ex] lt 1(3,4,5) by simp
    then show ?thesis using c100 ex by (subst openLoop.simps) simp
  qed
qed

lemma decimal_two: "10 \<le> k \<Longrightarrow> k < 100 \<Longrightarrow> decimal k = [char_of (48 + k div 10), char_of (48 + k mod 10)]"
  by (subst decimal.simps, subst decimal.simps) simp

lemma char_of_48: "char_of (48::nat) = CHR ''0''"
  by code_simp

lemma sprint02d_small: "k < 100 \<Longrightarrow> sprint02d k = [char_of (48 + k div 10), char_of (48 + k mod 10)]"
  by (cases "k < 10") (simp_all add: sprint02d_def decimal_two char_of_48)

text \<open>
  Claim C6.  openDiskFile tries the hundred candidates in order: the base name, then
  the base name with the counters 01 to 99 in two digits.  It fails with
  "couldn't create file" exactly when all hundred exist, and it creates and returns the
  first candidate that does not exist when the exclusive open of it succeeds.
\<close>

theorem openDiskFile_candidates:
  "(fst (openDiskFile E d l) = Inl CouldntCreateFile \<longleftrightarrow>
      (\<forall>k<100. fs E (candidate d (filename_of E l) k) = ErrExist)) \<and>
   (\<forall>i<100. (\<forall>k<i. fs E (candidate d (filename_of E l) k) = ErrExist) \<and>
        fs E (candidate d (filename_of E l) i) = OpenOk \<longrightarrow>
      openDiskFile E d l =
        (Inr (candidate d (filename_of E l) i),
         emit (FileCreated (candidate d (filename_of E l) i))
           (E\<lparr>fs := (fs E)(candidate d (filename_of E l) i := ErrExist)\<rparr>))) \<and>
   candidate d f 0 = Join d (f @ ''.webm'') \<and>
   (\<forall>k. 1 \<le> k \<and> k < 100 \<longrightarrow>
      candidate d f k =
        Join d (f @ ''-'' @ [char_of (48 + k div 10), char_of (48 + k mod 10)] @ ''.webm''))"
proof (intro conjI allI impI)
  let ?c = "candidate d (filename_of E l)"
  show "(fst (openDiskFile E d l) = Inl CouldntCreateFile) = (\<forall>k<100. fs E (?c k) = ErrExist)"
  proof
    assume r: "fst (openDiskFile E d l) = Inl CouldntCreateFile"
    show "\<forall>k<100. fs E (?c k) = ErrExist"
    proof (rule ccontr)
      assume "\<not> (\<forall>k<100. fs E (?c k) = ErrExist)"
      then have ex: "\<exists>k. k < 100 \<and> fs E (?c k) \<noteq> ErrExist" by blast
      define i where "i = (LEAST k. k < 100 \<and> fs E (?c k) \<noteq> ErrExist)"
      have i: "i < 100 \<and> fs E (?c i) \<noteq> ErrExist"
        unfolding i_def using ex by (rule LeastI_ex)
      have least: "\<And>k. k < i \<Longrightarrow> fs E (?c k) = ErrExist"
      proof -
        fix k assume "k < i"
        then have "\<not> (k < 100 \<and> fs E (?c k) \<noteq> ErrExist)"
          unfolding i_def by (rule not_less_Least)
        with \<open>k < i\<close> i show "fs E (?c k) = ErrExist" by simp
      qed
      have "openDiskFile E d l = OpenFile E (?c i)"
        unfolding openDiskFile_def using i least by (intro openLoop_first) simp_all
      with r i show False
        by (auto simp: OpenFile_def split: open_result.splits)
    qed
  next
    assume "\<forall>k<100. fs E (?c k) = ErrExist"
    then show "fst (openDiskFile E d l) = Inl CouldntCreateFile"
      by (simp add: openDiskFile_def openLoop_all_exist)
  qed
next
  fix i
  let ?c = "candidate d (filename_of E l)"
  assume i: "i < 100"
    and h: "(\<forall>k<i. fs E (?c k) = ErrExist) \<and> fs E (?c i) = OpenOk"
  have "openDiskFile E d l = OpenFile E (?c i)"
    unfolding openDiskFile_def using i h by (intro openLoop_first) simp_all
  then show "openDiskFile E d l =
        (Inr (?c i), emit (FileCreated (?c i)) (E\<lparr>fs := (fs E)(?c i := ErrExist)\<rparr>))"
    using h by (simp add: OpenFile_def)
next
  show "candidate d f 0 = Join d (f @ ''.webm'')"
    by (simp add: candidate_def)
next
  fix k :: nat assume "1 \<le> k \<and> k < 100"
  then show "candidate d f k =
        Join d (f @ ''-'' @ [char_of (48 + k div 10), char_of (48 + k mod 10)] @ ''.webm'')"
    by (simp add: candidate_def sprint02d_small)
qed

theorem warn_rate_limited_witness:
  "warn env0 (conn0 []) ''disk full'' =
     (emit (WallOps group0 ''disk full'') (emit (LogPrintln ''disk full'') env0),
      (conn0 [])\<lparr>lastWarning := 60 * Second\<rparr>) \<and>
   warn (env0\<lparr>now := 65 * Second\<rparr>) ((conn0 [])\<lparr>lastWarning := 60 * Second\<rparr>) ''again'' =
     (env0\<lparr>now := 65 * Second\<rparr>, (conn0 [])\<lparr>lastWarning := 60 * Second\<rparr>) \<and>
   notifications (trace (fst (warns env0 (conn0 [])
     [(60 * Second, ''a''), (61 * Second, ''b''), (63 * Second, ''c''), (66 * Second, ''d''),
      (69 * Second, ''e''), (70 * Second, ''f'')]))) = [''a'', ''f'']"
proof -
  have a: "10 * Second \<le> now env0 - lastWarning (conn0 [])"
    by (simp add: env0_def conn0_def Second_def)
  have b: "now (env0\<lparr>now := 65 * Second\<rparr>) - lastWarning ((conn0 [])\<lparr>lastWarning := 60 * Second\<rparr>)
           < 10 * Second"
    by (simp add: Second_def)
  have c: "lastWarning (conn0 []) = 0 \<and> 10 * Second \<le> 60 * Second \<and>
    61 * Second - 60 * Second < 10 * Second \<and> 63 * Second - 60 * Second < 10 * Second \<and>
    66 * Second - 60 * Second < 10 * Second \<and> 69 * Second - 60 * Second < 10 * Second \<and>
    10 * Second \<le> 70 * Second - 60 * Second"
    by (simp add: conn0_def Second_def)
  have 1: "warn env0 (conn0 []) ''disk full'' =
     (emit (WallOps group0 ''disk full'') (emit (LogPrintln ''disk full'') env0),
      (conn0 [])\<lparr>lastWarning := 60 * Second\<rparr>)"
    using a warn_rate_limited [where E = env0 and c = "conn0 []" and m = "''disk full''"]
    by (simp add: env0_def conn0_def)
  have 2: "warn (env0\<lparr>now := 65 * Second\<rparr>) ((conn0 [])\<lparr>lastWarning := 60 * Second\<rparr>) ''again'' =
     (env0\<lparr>now := 65 * Second\<rparr>, (conn0 [])\<lparr>lastWarning := 60 * Second\<rparr>)"
    using b warn_rate_limited [where E = "env0\<lparr>now := 65 * Second\<rparr>"
        and c = "(conn0 [])\<lparr>lastWarning := 60 * Second\<rparr>" and m = "''again''"]
    by blast
  have 3: "notifications (trace (fst (warns env0 (conn0 [])
     [(60 * Second, ''a''), (61 * Second, ''b''), (63 * Second, ''c''), (66 * Second, ''d''),
      (69 * Second, ''e''), (70 * Second, ''f'')]))) = notifications (trace env0) @ [''a'', ''f'']"
    using c warn_rate_limited [where E = env0 and c = "conn0 []" and ta = "60 * Second"
        and tb = "61 * Second" and tc = "63 * Second" and td = "66 * Second"
        and te = "69 * Second" and tf = "70 * Second" and ma = "''a''" and mb = "''b''"
        and mc = "''c''" and md = "''d''" and me = "''e''" and mf = "''f''"]
    by blast
  have 4: "notifications (trace env0) = []"
    by (simp add: env0_def)
  show ?thesis using 1 2 3 4 by simp
qed

theorem openDiskFile_candidates_witness:
  "openDiskFile (env0\<lparr>fs := taken_fs [''rec/T.webm'', ''rec/T-01.webm'']\<rparr>) ''rec'' [] =
     (Inr ''rec/T-02.webm'',
      emit (FileCreated ''rec/T-02.webm'')
        (env0\<lparr>fs := (taken_fs [''rec/T.webm'', ''rec/T-01.webm''])(''rec/T-02.webm'' := ErrExist)\<rparr>)) \<and>
   fst (openDiskFile (env0\<lparr>fs := (\<lambda>p. ErrExist)\<rparr>) ''rec'' []) = Inl CouldntCreateFile \<and>
   candidate ''rec'' ''T'' 0 = ''rec/T.webm'' \<and>
   candidate ''rec'' ''T'' 42 = ''rec/T-42.webm''"
proof -
  let ?E = "env0\<lparr>fs := taken_fs [''rec/T.webm'', ''rec/T-01.webm'']\<rparr>"
  have fn: "filename_of ?E [] = ''T''" "filename_of (env0\<lparr>fs := (\<lambda>p. ErrExist)\<rparr>) [] = ''T''"
    by (simp_all add: filename_of_def env0_def)
  have c0: "candidate ''rec'' ''T'' 0 = ''rec/T.webm''"
    by (simp add: candidate_def Join_def)
  have c1: "candidate ''rec'' ''T'' (Suc 0) = ''rec/T-01.webm''"
    by (simp add: candidate_def Join_def sprint02d_small) code_simp
  have c2: "candidate ''rec'' ''T'' 2 = ''rec/T-02.webm''"
    by (simp add: candidate_def Join_def sprint02d_small) code_simp
  have c2': "candidate ''rec'' ''T'' (Suc (Suc 0)) = ''rec/T-02.webm''"
    using c2 by (simp add: numeral_2_eq_2)
  have h: "(\<forall>k<2. fs ?E (candidate ''rec'' (filename_of ?E []) k) = ErrExist) \<and>
        fs ?E (candidate ''rec'' (filename_of ?E []) 2) = OpenOk"
    by (simp add: fn c0 c1 c2 c2' taken_fs_def less_Suc_eq numeral_2_eq_2)
  have all: "\<forall>k<100. fs (env0\<lparr>fs := (\<lambda>p. ErrExist)\<rparr>)
      (candidate ''rec'' (filename_of (env0\<lparr>fs := (\<lambda>p. ErrExist)\<rparr>) []) k) = ErrExist"
    by simp
  note T1 = openDiskFile_candidates [where E = ?E and d = "''rec''" and l = "[]" and f = "''T''"]
  note T2 = openDiskFile_candidates [where E = "env0\<lparr>fs := (\<lambda>p. ErrExist)\<rparr>" and d = "''rec''"
      and l = "[]" and f = "''T''"]
  have 1: "openDiskFile ?E ''rec'' [] =
     (Inr ''rec/T-02.webm'',
      emit (FileCreated ''rec/T-02.webm'')
        (env0\<lparr>fs := (taken_fs [''rec/T.webm'', ''rec/T-01.webm''])(''rec/T-02.webm'' := ErrExist)\<rparr>))"
    using T1 [THEN conjunct2, THEN conjunct1, rule_format, of 2] h
    by (simp add: fn c2)
  have 2: "fst (openDiskFile (env0\<lparr>fs := (\<lambda>p. ErrExist)\<rparr>) ''rec'' []) = Inl CouldntCreateFile"
    using T2 [THEN conjunct1] all by blast
  have d42: "[char_of (48 + (42::nat) div 10), char_of (48 + (42::nat) mod 10)] = ''42''"
    by code_simp
  have 3: "candidate ''rec'' ''T'' 42 = ''rec/T-42.webm''"
    using T1 [THEN conjunct2, THEN conjunct2, THEN conjunct2, rule_format, of 42] d42
    by (simp add: Join_def)
  show ?thesis using 1 2 3 c0 by simp
qed

lemma clear_unset: "writer t = None \<Longrightarrow> t\<lparr>writer := None\<rparr> = (t :: diskTrack)"
  by simp

lemma closeWriters_eq:
  "closeWriters E ts = (E', ts') \<Longrightarrow> ts' = map (\<lambda>t. t\<lparr>writer := None\<rparr>) ts"
proof (induction ts arbitrary: E E' ts')
  case Nil
  then show ?case by simp
next
  case (Cons t ts)
  show ?case
  proof (cases "writer t")
    case None
    with Cons.prems obtain ts1 where "closeWriters E ts = (E', ts1)" "ts' = t # ts1"
      by (auto split: prod.splits)
    with Cons.IH None show ?thesis by (simp add: clear_unset)
  next
    case (Some w)
    with Cons.prems obtain ts1 where
      "closeWriters (emit (WriterClosed w) E) ts = (E', ts1)" "ts' = t\<lparr>writer := None\<rparr> # ts1"
      by (auto split: prod.splits)
    with Cons.IH show ?thesis by simp
  qed
qed

lemma entries_from_Inl: "entries_from i ts w h = Inl err \<Longrightarrow> err = UnknownTrackType"
  by (induction ts arbitrary: i err) (auto split: kind.splits sum.splits)

lemma entries_from_supported:
  "\<forall>t \<in> set ts. kind_of (Codec (remote t)) \<noteq> Unsupported \<Longrightarrow>
   \<exists>es. entries_from i ts w h = Inr es"
proof (induction ts arbitrary: i)
  case Nil
  then show ?case by simp
next
  case (Cons t ts)
  then obtain es where "entries_from (i + 1) ts w h = Inr es" by fastforce
  with Cons.prems show ?case by (cases "kind_of (Codec (remote t))") auto
qed

lemma openLoop_error:
  "openLoop E d f counter = (Inl err, E') \<Longrightarrow> err \<noteq> UnknownTrackType"
proof (induction E d f counter rule: openLoop.induct)
  case (1 E dir filename counter)
  show ?case
  proof (cases "counter < 100")
    case True
    show ?thesis
    proof (cases "fs E (candidate dir filename counter) = ErrExist")
      case e: True
      with True 1 show ?thesis by (subst (asm) (2) openLoop.simps) simp
    next
      case False
      with True 1(2) show ?thesis
        by (subst (asm) openLoop.simps) (auto simp: OpenFile_def split: open_result.splits)
    qed
  next
    case False
    with 1(2) show ?thesis by (subst (asm) openLoop.simps) auto
  qed
qed

lemma reopen_failed:
  "reopen E c = (Some err, E', c') \<Longrightarrow>
   ofile c' = None \<and> (\<forall>t \<in> set (tracks c'). writer t = None) \<and> err \<noteq> UnknownTrackType"
  by (auto simp: reopen_def Let_def openDiskFile_def split: prod.splits sum.splits
      dest!: closeWriters_eq openLoop_error)

lemma reopen_ok:
  "reopen E c = (None, E', c') \<Longrightarrow>
   ofile c' \<noteq> None \<and> tracks c' = map (\<lambda>t. t\<lparr>writer := None\<rparr>) (tracks c)"
  by (auto simp: reopen_def Let_def split: prod.splits sum.splits dest!: closeWriters_eq)

subsection \<open>initWriter of the connection\<close>

text \<open>
  Claim C4.  initWriter of the connection returns success and changes nothing when a
  file is set and the dimensions asked for are the current ones.  When it fails for a
  reason other than an unknown track type (the file cannot be opened, the muxer cannot
  be built, or the muxer returns a number of writers that is not the number of tracks),
  it returns that error and leaves the connection with no file and no writer on any
  track.  The unknown track type does not occur when every track is Opus or VP8, which
  is what newDiskConn builds.
\<close>

theorem conn_initWriter_outcomes:
  "(ofile c \<noteq> None \<and> w = width c \<and> h = height c \<longrightarrow> conn_initWriter E c w h = (None, E, c)) \<and>
   (\<forall>err E' c'. conn_initWriter E c w h = (Some err, E', c') \<and> err \<noteq> UnknownTrackType \<longrightarrow>
      ofile c' = None \<and> (\<forall>t \<in> set (tracks c'). writer t = None)) \<and>
   ((\<forall>t \<in> set (tracks c). kind_of (Codec (remote t)) \<noteq> Unsupported) \<longrightarrow>
      fst (conn_initWriter E c w h) \<noteq> Some UnknownTrackType) \<and>
   (\<not> (ofile c \<noteq> None \<and> w = width c \<and> h = height c) \<and>
    entries_from 0 (tracks c) w h = Inr es \<longrightarrow>
      (\<forall>err E1 c1. reopen E c = (Some err, E1, c1) \<longrightarrow>
         conn_initWriter E c w h = (Some err, E1, c1)) \<and>
      (\<forall>E1 c1 f. reopen E c = (None, E1, c1) \<and> ofile c1 = Some f \<longrightarrow>
         (\<forall>m. muxer_result E1 f es = Inl m \<longrightarrow>
            fst (conn_initWriter E c w h) = Some (MuxerError m)) \<and>
         (\<forall>n. muxer_result E1 f es = Inr n \<and> n \<noteq> length (tracks c) \<longrightarrow>
            fst (conn_initWriter E c w h) = Some UnexpectedWriters)))"
proof (intro conjI allI impI)
  assume "ofile c \<noteq> None \<and> w = width c \<and> h = height c"
  then show "conn_initWriter E c w h = (None, E, c)"
    by (simp add: conn_initWriter_def)
next
  fix err E' c'
  assume a: "conn_initWriter E c w h = (Some err, E', c') \<and> err \<noteq> UnknownTrackType"
  then show "ofile c' = None"
    by (auto simp: conn_initWriter_def close_file_def Let_def
        split: if_splits sum.splits prod.splits option.splits
        dest: entries_from_Inl reopen_failed reopen_ok)
  from a show "\<forall>t \<in> set (tracks c'). writer t = None"
    by (auto simp: conn_initWriter_def close_file_def Let_def
        split: if_splits sum.splits prod.splits option.splits
        dest: entries_from_Inl reopen_failed dest!: reopen_ok)
next
  assume s: "\<forall>t \<in> set (tracks c). kind_of (Codec (remote t)) \<noteq> Unsupported"
  then obtain es where "entries_from 0 (tracks c) w h = Inr es"
    using entries_from_supported by blast
  then show "fst (conn_initWriter E c w h) \<noteq> Some UnknownTrackType"
    by (auto simp: conn_initWriter_def close_file_def Let_def
        split: if_splits sum.splits prod.splits option.splits
        dest: reopen_failed)
next
  fix err E1 c1
  assume "\<not> (ofile c \<noteq> None \<and> w = width c \<and> h = height c) \<and>
    entries_from 0 (tracks c) w h = Inr es" "reopen E c = (Some err, E1, c1)"
  then show "conn_initWriter E c w h = (Some err, E1, c1)"
    by (auto simp: conn_initWriter_def)
next
  fix E1 c1 f m
  assume "\<not> (ofile c \<noteq> None \<and> w = width c \<and> h = height c) \<and>
    entries_from 0 (tracks c) w h = Inr es" "reopen E c = (None, E1, c1) \<and> ofile c1 = Some f"
    "muxer_result E1 f es = Inl m"
  then show "fst (conn_initWriter E c w h) = Some (MuxerError m)"
    by (auto simp: conn_initWriter_def close_file_def)
next
  fix E1 c1 f n
  assume "\<not> (ofile c \<noteq> None \<and> w = width c \<and> h = height c) \<and>
    entries_from 0 (tracks c) w h = Inr es" "reopen E c = (None, E1, c1) \<and> ofile c1 = Some f"
    "muxer_result E1 f es = Inr n \<and> n \<noteq> length (tracks c)"
  then show "fst (conn_initWriter E c w h) = Some UnexpectedWriters"
    by (auto simp: conn_initWriter_def close_file_def Let_def dest!: reopen_ok)
qed

lemma kind_of_opus: "kind_of opus = Opus"
  by (simp add: kind_of_def opus_def ToLower_def lower_char_def)

lemma kind_of_vp8: "kind_of vp8 = VP8"
  by code_simp

lemma openLoop_free:
  "fs E (candidate d f 0) = OpenOk \<Longrightarrow> openLoop E d f 0 = OpenFile E (candidate d f 0)"
  by (subst openLoop.simps) simp

lemma cand0: "candidate ''rec/room'' ''T'' 0 = ''rec/room/T.webm''"
  by (simp add: candidate_def Join_def)

lemma openDiskFile_env0:
  "fs E = taken_fs [] \<Longrightarrow> Format E = (\<lambda>layout t. ''T'') \<Longrightarrow>
   openDiskFile E ''rec/room'' [] =
     (Inr ''rec/room/T.webm'',
      emit (FileCreated ''rec/room/T.webm'') (E\<lparr>fs := (taken_fs [])(''rec/room/T.webm'' := ErrExist)\<rparr>))"
  by (simp add: openDiskFile_def filename_of_def openLoop_free cand0 taken_fs_def OpenFile_def)

lemma reopen_fresh:
  "reopen (env0\<lparr>muxer_result := mr\<rparr>) (conn0 [audio0]) =
    (None,
     emit (FileCreated ''rec/room/T.webm'')
       (env0\<lparr>muxer_result := mr, fs := (taken_fs [])(''rec/room/T.webm'' := ErrExist)\<rparr>),
     (conn0 [audio0])\<lparr>ofile := Some ''rec/room/T.webm''\<rparr>)"
proof -
  have "openDiskFile (env0\<lparr>muxer_result := mr\<rparr>) ''rec/room'' [] =
     (Inr ''rec/room/T.webm'',
      emit (FileCreated ''rec/room/T.webm'')
        (env0\<lparr>muxer_result := mr, fs := (taken_fs [])(''rec/room/T.webm'' := ErrExist)\<rparr>))"
    by (rule openDiskFile_env0) (simp_all add: env0_def)
  then show ?thesis
    by (simp add: reopen_def conn0_def newTrack_def)
qed

theorem conn_initWriter_outcomes_witness:
  "conn_initWriter env0 ((conn0 [audio0])\<lparr>ofile := Some ''rec/room/T.webm''\<rparr>) 0 0 =
     (None, env0, (conn0 [audio0])\<lparr>ofile := Some ''rec/room/T.webm''\<rparr>) \<and>
   fst (conn_initWriter (env0\<lparr>muxer_result := (\<lambda>f es. Inl ''no space'')\<rparr>) (conn0 [audio0]) 0 0) =
     Some (MuxerError ''no space'') \<and>
   ofile (snd (snd (conn_initWriter (env0\<lparr>muxer_result := (\<lambda>f es. Inl ''no space'')\<rparr>)
     (conn0 [audio0]) 0 0))) = None \<and>
   map writer (tracks (snd (snd (conn_initWriter
     (env0\<lparr>muxer_result := (\<lambda>f es. Inl ''no space'')\<rparr>) (conn0 [audio0]) 0 0)))) = [None] \<and>
   fst (conn_initWriter (env0\<lparr>muxer_result := (\<lambda>f es. Inr 2)\<rparr>) (conn0 [audio0]) 0 0) =
     Some UnexpectedWriters"
proof -
  let ?c = "conn0 [audio0]"
  let ?cf = "?c\<lparr>ofile := Some ''rec/room/T.webm''\<rparr>"
  let ?Em = "env0\<lparr>muxer_result := (\<lambda>f es. Inl ''no space'')\<rparr>"
  let ?En = "env0\<lparr>muxer_result := (\<lambda>f es. Inr 2)\<rparr>"
  let ?es = "[entry_of 0 Opus opus 0 0]"
  have es: "entries_from 0 (tracks ?c) 0 0 = Inr ?es"
    by (simp add: conn0_def newTrack_def audio0_def kind_of_opus)
  have pre: "\<not> (ofile ?c \<noteq> None \<and> (0::32 word) = width ?c \<and> (0::32 word) = height ?c) \<and>
      entries_from 0 (tracks ?c) 0 0 = Inr ?es"
    using es by (simp add: conn0_def)
  have noop: "ofile ?cf \<noteq> None \<and> (0::32 word) = width ?cf \<and> (0::32 word) = height ?cf"
    by (simp add: conn0_def)
  have 1: "conn_initWriter env0 ?cf 0 0 = (None, env0, ?cf)"
    using conn_initWriter_outcomes [where E = env0 and c = ?cf and w = 0 and h = 0] noop
    by blast
  note T = conn_initWriter_outcomes [where E = ?Em and c = ?c and w = 0 and h = 0 and es = ?es]
  have 2: "fst (conn_initWriter ?Em ?c 0 0) = Some (MuxerError ''no space'')"
    using T pre reopen_fresh [of "\<lambda>f es. Inl ''no space''"] by (simp add: emit_def)
  then obtain E' c' where r: "conn_initWriter ?Em ?c 0 0 = (Some (MuxerError ''no space''), E', c')"
    by (cases "conn_initWriter ?Em ?c 0 0") auto
  have cleared: "ofile c' = None \<and> (\<forall>t \<in> set (tracks c'). writer t = None)"
    using T r by blast
  have len: "length (tracks c') = 1"
    using r pre reopen_fresh [of "\<lambda>f es. Inl ''no space''"]
    by (auto simp: conn_initWriter_def close_file_def emit_def conn0_def)
  have 3: "map writer (tracks c') = [None]"
    using cleared len by (cases "tracks c'") auto
  have 4: "fst (conn_initWriter ?En ?c 0 0) = Some UnexpectedWriters"
    using conn_initWriter_outcomes [where E = ?En and c = ?c and w = 0 and h = 0 and es = ?es]
      pre reopen_fresh [of "\<lambda>f es. Inr 2"]
    by (simp add: emit_def conn0_def)
  show ?thesis using 1 2 3 4 r cleared by simp
qed

subsection \<open>Words\<close>

lemma nat_or_push_bit:
  fixes a b :: nat
  assumes "a < 2 ^ n"
  shows "a OR push_bit n b = a + 2 ^ n * b"
proof -
  have "\<not> bit a k \<or> \<not> bit (push_bit n b) k" for k
  proof (cases "k < n")
    case True
    then show ?thesis by (simp add: bit_push_bit_iff)
  next
    case False
    then have "2 ^ n \<le> (2::nat) ^ k" by simp
    with assms have "a < 2 ^ k" by linarith
    then show ?thesis by (simp add: bit_iff_odd)
  qed
  then have "a + push_bit n b = a OR push_bit n b" by (rule disjunctive_add)
  then show ?thesis by (simp add: push_bit_eq_mult mult.commute)
qed

lemma unat_byte_lt: "unat (x :: 8 word) < 256"
  using unsigned_less [of x, where 'a = nat] by simp

lemma unat_ucast_byte: "unat (ucast (x :: 8 word) :: 32 word) = unat x"
  using unat_byte_lt [of x] by (simp add: unsigned_ucast_eq take_bit_nat_eq_self)

lemma unat_push_byte:
  "n \<le> 24 \<Longrightarrow> unat (push_bit n (ucast (x :: 8 word)) :: 32 word) = push_bit n (unat x)"
proof -
  assume n: "n \<le> 24"
  have "unat x * 2 ^ n < 2 ^ 8 * 2 ^ n"
    using unat_byte_lt [of x] by simp
  also have "\<dots> = (2::nat) ^ (8 + n)" by (simp add: power_add)
  also have "\<dots> \<le> 2 ^ 32" using n by (intro power_increasing) simp_all
  finally have "push_bit n (unat x) < (2::nat) ^ 32" by (simp add: push_bit_eq_mult)
  then show ?thesis
    by (simp add: unsigned_push_bit_eq unat_ucast_byte take_bit_nat_eq_self)
qed

lemma unat_vp8_raw:
  "unat (vp8_raw data) =
     unat (data ! 6) + 256 * unat (data ! 7) + 65536 * unat (data ! 8) +
     16777216 * unat (data ! 9)"
proof -
  let ?a = "unat (data ! 6)" and ?b = "unat (data ! 7)"
  let ?c = "unat (data ! 8)" and ?d = "unat (data ! 9)"
  have b: "?a < 256" "?b < 256" "?c < 256" "?d < 256" by (rule unat_byte_lt)+
  have e: "unat (vp8_raw data) = ?a OR push_bit 8 ?b OR push_bit 16 ?c OR push_bit 24 ?d"
    by (simp add: vp8_raw_def unsigned_or_eq unat_ucast_byte unat_push_byte)
  have s1: "?a OR push_bit 8 ?b = ?a + 2 ^ 8 * ?b"
    using b by (intro nat_or_push_bit) simp
  have s2: "(?a + 2 ^ 8 * ?b) OR push_bit 16 ?c = ?a + 2 ^ 8 * ?b + 2 ^ 16 * ?c"
    using b by (intro nat_or_push_bit) simp
  have s3: "(?a + 2 ^ 8 * ?b + 2 ^ 16 * ?c) OR push_bit 24 ?d =
      ?a + 2 ^ 8 * ?b + 2 ^ 16 * ?c + 2 ^ 24 * ?d"
    using b by (intro nat_or_push_bit) simp
  have "unat (vp8_raw data) = ((?a OR push_bit 8 ?b) OR push_bit 16 ?c) OR push_bit 24 ?d"
    unfolding e by (simp only: or.assoc)
  also have "\<dots> = ?a + 2 ^ 8 * ?b + 2 ^ 16 * ?c + 2 ^ 24 * ?d"
    by (simp only: s1 s2 s3)
  finally show ?thesis by simp
qed

lemma unat_low14: "unat ((w :: 32 word) AND 0x3FFF) = unat w mod 16384"
proof -
  have m: "(0x3FFF :: 32 word) = mask 14" by (simp add: mask_eq_exp_minus_1)
  have "w AND mask 14 = take_bit 14 w" by (simp only: take_bit_eq_mask)
  also have "\<dots> = w mod 2 ^ 14" by (rule take_bit_eq_mod)
  finally have "w AND 0x3FFF = w mod 16384" unfolding m by simp
  then show ?thesis by (simp add: unat_mod_distrib)
qed

lemma unat_drop16: "unat (drop_bit 16 (w :: 32 word)) = unat w div 65536"
  by (simp add: drop_bit_eq_div unat_div_distrib)

lemma low_bit_clear: "((x :: 8 word) AND 1 = 0) \<longleftrightarrow> even (unat x)"
proof -
  have "(x mod 2 = 0) \<longleftrightarrow> (unat (x mod 2) = 0)" by (simp add: unat_eq_0)
  then show ?thesis by (simp add: and_one_eq unat_mod_distrib even_iff_mod_2_eq_zero)
qed


subsection \<open>Keyframes and their dimensions\<close>

text \<open>
  Claim C5.  A VP8 sample with a payload is a keyframe exactly when the low bit of its
  first byte is clear, and the loop of WriteRTP treats it so: with the low bit clear, of
  whatever length, the sample goes through initWriter of the track, its timestamp
  becomes lastKf and it is written with the keyframe flag set; with the low bit set it
  is written with the flag clear, with no initialization.  Without a writer the first
  kind returns no error and the second returns "keyframe needed".  For a keyframe of
  ten bytes or more, the width is the low 14 bits and the height is bits 16 to 29 of the
  little-endian 32-bit number in bytes 6 to 9, and exactly these two numbers are passed
  to initWriter of the connection; a shorter keyframe initializes nothing.
\<close>

theorem vp8_keyframe_dimensions:
  "(data \<noteq> [] \<longrightarrow> (vp8_keyframe data \<longleftrightarrow> even (unat (hd data)))) \<and>
   (kind_of (Codec (remote (tracks c ! i))) = VP8 \<and> 10 \<le> length data \<and>
    even (unat (data ! 0)) \<longrightarrow>
      (\<exists>w h.
         unat w =
           (unat (data ! 6) + 256 * unat (data ! 7) + 65536 * unat (data ! 8) +
            16777216 * unat (data ! 9)) mod 16384 \<and>
         unat h =
           ((unat (data ! 6) + 256 * unat (data ! 7) + 65536 * unat (data ! 8) +
             16777216 * unat (data ! 9)) div 65536) mod 16384 \<and>
         track_initWriter E c i data = conn_initWriter E c w h \<and>
         body E c i kf (data, ts) =
           (case conn_initWriter E c w h of
              (Some err, E1, c1) \<Rightarrow> failed err E1 c1
            | (None, E1, c1) \<Rightarrow>
                write_sample E1 (set_track c1 i ((tracks c1 ! i)\<lparr>lastKf := ts\<rparr>))
                  i kf True (data, ts)))) \<and>
   (kind_of (Codec (remote (tracks c ! i))) = VP8 \<and> data \<noteq> [] \<and> odd (unat (data ! 0)) \<longrightarrow>
      (\<exists>kf'. body E c i kf (data, ts) = write_sample E c i kf' False (data, ts))) \<and>
   (kind_of (Codec (remote (tracks c ! i))) = VP8 \<and> data \<noteq> [] \<and> even (unat (data ! 0)) \<longrightarrow>
      body E c i kf (data, ts) =
        (case track_initWriter E c i data of
           (Some err, E1, c1) \<Rightarrow> failed err E1 c1
         | (None, E1, c1) \<Rightarrow>
             write_sample E1 (set_track c1 i ((tracks c1 ! i)\<lparr>lastKf := ts\<rparr>))
               i kf True (data, ts))) \<and>
   (kind_of (Codec (remote (tracks c ! i))) = VP8 \<and> data \<noteq> [] \<and> even (unat (data ! 0)) \<and>
    length data < 10 \<longrightarrow>
      track_initWriter E c i data = (None, E, c) \<and>
      body E c i kf (data, ts) =
        write_sample E (set_track c i ((tracks c ! i)\<lparr>lastKf := ts\<rparr>)) i kf True (data, ts)) \<and>
   (kind_of (Codec (remote (tracks c ! i))) = VP8 \<and> data \<noteq> [] \<and> even (unat (data ! 0)) \<and>
    length data < 10 \<and> i < length (tracks c) \<and> writer (tracks c ! i) = None \<longrightarrow>
      body E c i kf (data, ts) =
        Return None E (set_track c i ((tracks c ! i)\<lparr>lastKf := ts\<rparr>))) \<and>
   (kind_of (Codec (remote (tracks c ! i))) = VP8 \<and> data \<noteq> [] \<and> odd (unat (data ! 0)) \<longrightarrow>
      body E c i kf (data, ts) =
        write_sample E c i
          (if writer (tracks c ! i) \<noteq> None \<and>
              (ts - lastKf (tracks c ! i)) AND 0x80000000 = 0 \<and>
              ts - lastKf (tracks c ! i) > 10 * 90000
           then True else kf)
          False (data, ts)) \<and>
   (kind_of (Codec (remote (tracks c ! i))) = VP8 \<and> data \<noteq> [] \<and> odd (unat (data ! 0)) \<and>
    writer (tracks c ! i) = None \<longrightarrow>
      body E c i kf (data, ts) = Return (Some ErrKeyframeNeeded) E c)"
proof (intro conjI impI)
  assume a: "kind_of (Codec (remote (tracks c ! i))) = VP8 \<and> data \<noteq> [] \<and> even (unat (data ! 0))"
  then have k: "vp8_keyframe data" by (simp add: vp8_keyframe_def low_bit_clear)
  have l: "\<not> length data < 1" using a by (cases data) auto
  show "body E c i kf (data, ts) =
        (case track_initWriter E c i data of
           (Some err, E1, c1) \<Rightarrow> failed err E1 c1
         | (None, E1, c1) \<Rightarrow>
             write_sample E1 (set_track c1 i ((tracks c1 ! i)\<lparr>lastKf := ts\<rparr>))
               i kf True (data, ts))"
    using a k l by (simp add: body_def Let_def)
next
  assume a: "kind_of (Codec (remote (tracks c ! i))) = VP8 \<and> data \<noteq> [] \<and> even (unat (data ! 0)) \<and>
    length data < 10"
  then have k: "vp8_keyframe data" by (simp add: vp8_keyframe_def low_bit_clear)
  have l: "\<not> length data < 1" using a by (cases data) auto
  show t: "track_initWriter E c i data = (None, E, c)"
    using a by (simp add: track_initWriter_def)
  show "body E c i kf (data, ts) =
        write_sample E (set_track c i ((tracks c ! i)\<lparr>lastKf := ts\<rparr>)) i kf True (data, ts)"
    using a k l by (simp add: body_def Let_def t)
next
  assume a: "kind_of (Codec (remote (tracks c ! i))) = VP8 \<and> data \<noteq> [] \<and> even (unat (data ! 0)) \<and>
    length data < 10 \<and> i < length (tracks c) \<and> writer (tracks c ! i) = None"
  then have k: "vp8_keyframe data" by (simp add: vp8_keyframe_def low_bit_clear)
  have l: "\<not> length data < 1" using a by (cases data) auto
  have t: "track_initWriter E c i data = (None, E, c)"
    using a by (simp add: track_initWriter_def)
  have b: "body E c i kf (data, ts) =
        write_sample E (set_track c i ((tracks c ! i)\<lparr>lastKf := ts\<rparr>)) i kf True (data, ts)"
    using a k l by (simp add: body_def Let_def t)
  have "writer (tracks (set_track c i ((tracks c ! i)\<lparr>lastKf := ts\<rparr>)) ! i) = None"
    using a by (simp add: set_track_def)
  then show "body E c i kf (data, ts) =
        Return None E (set_track c i ((tracks c ! i)\<lparr>lastKf := ts\<rparr>))"
    unfolding b by (simp add: write_sample_def)
next
  assume a: "kind_of (Codec (remote (tracks c ! i))) = VP8 \<and> data \<noteq> [] \<and> odd (unat (data ! 0))"
  then have k: "\<not> vp8_keyframe data" by (simp add: vp8_keyframe_def low_bit_clear)
  have l: "\<not> length data < 1" using a by (cases data) auto
  show "body E c i kf (data, ts) =
        write_sample E c i
          (if writer (tracks c ! i) \<noteq> None \<and>
              (ts - lastKf (tracks c ! i)) AND 0x80000000 = 0 \<and>
              ts - lastKf (tracks c ! i) > 10 * 90000
           then True else kf)
          False (data, ts)"
    using a k l by (simp add: body_def Let_def)
next
  assume a: "kind_of (Codec (remote (tracks c ! i))) = VP8 \<and> data \<noteq> [] \<and> odd (unat (data ! 0)) \<and>
    writer (tracks c ! i) = None"
  then have k: "\<not> vp8_keyframe data" by (simp add: vp8_keyframe_def low_bit_clear)
  have l: "\<not> length data < 1" using a by (cases data) auto
  show "body E c i kf (data, ts) = Return (Some ErrKeyframeNeeded) E c"
    using a k l by (simp add: body_def Let_def write_sample_def)
next
  assume "data \<noteq> []"
  then show "vp8_keyframe data \<longleftrightarrow> even (unat (hd data))"
    by (simp add: vp8_keyframe_def low_bit_clear hd_conv_nth)
next
  assume a: "kind_of (Codec (remote (tracks c ! i))) = VP8 \<and> 10 \<le> length data \<and>
    even (unat (data ! 0))"
  let ?w = "vp8_raw data AND 0x3FFF" and ?h = "drop_bit 16 (vp8_raw data) AND 0x3FFF"
  have k: "vp8_keyframe data" using a by (simp add: vp8_keyframe_def low_bit_clear)
  have t: "track_initWriter E c i data = conn_initWriter E c ?w ?h"
    using a k by (simp add: track_initWriter_def Let_def)
  have b: "body E c i kf (data, ts) =
           (case conn_initWriter E c ?w ?h of
              (Some err, E1, c1) \<Rightarrow> failed err E1 c1
            | (None, E1, c1) \<Rightarrow>
                write_sample E1 (set_track c1 i ((tracks c1 ! i)\<lparr>lastKf := ts\<rparr>))
                  i kf True (data, ts))"
  proof -
    have "\<not> length data < 1" using a by (cases data) auto
    then show ?thesis using a k by (simp add: body_def Let_def t)
  qed
  have w: "unat ?w = (unat (data ! 6) + 256 * unat (data ! 7) + 65536 * unat (data ! 8) +
            16777216 * unat (data ! 9)) mod 16384"
    by (simp only: unat_low14 unat_vp8_raw)
  have h: "unat ?h = ((unat (data ! 6) + 256 * unat (data ! 7) + 65536 * unat (data ! 8) +
             16777216 * unat (data ! 9)) div 65536) mod 16384"
    by (simp only: unat_low14 unat_drop16 unat_vp8_raw)
  from w h t b show "\<exists>w h.
         unat w =
           (unat (data ! 6) + 256 * unat (data ! 7) + 65536 * unat (data ! 8) +
            16777216 * unat (data ! 9)) mod 16384 \<and>
         unat h =
           ((unat (data ! 6) + 256 * unat (data ! 7) + 65536 * unat (data ! 8) +
             16777216 * unat (data ! 9)) div 65536) mod 16384 \<and>
         track_initWriter E c i data = conn_initWriter E c w h \<and>
         body E c i kf (data, ts) =
           (case conn_initWriter E c w h of
              (Some err, E1, c1) \<Rightarrow> failed err E1 c1
            | (None, E1, c1) \<Rightarrow>
                write_sample E1 (set_track c1 i ((tracks c1 ! i)\<lparr>lastKf := ts\<rparr>))
                  i kf True (data, ts))"
    by blast
next
  assume a: "kind_of (Codec (remote (tracks c ! i))) = VP8 \<and> data \<noteq> [] \<and> odd (unat (data ! 0))"
  then have k: "\<not> vp8_keyframe data" by (simp add: vp8_keyframe_def low_bit_clear)
  have l: "\<not> length data < 1" using a by (cases data) auto
  show "\<exists>kf'. body E c i kf (data, ts) = write_sample E c i kf' False (data, ts)"
    using a k l by (auto simp: body_def Let_def)
qed

lemma tracks_conn0_video: "tracks (conn0 [video1]) ! 0 = newTrack video1"
  by (simp add: conn0_def)

lemma kind_video1: "kind_of (Codec (remote (newTrack video1))) = VP8"
  by (simp add: newTrack_def video1_def kind_of_vp8)

theorem vp8_keyframe_dimensions_witness:
  "vp8_keyframe kf640 \<and> \<not> vp8_keyframe delta_frame \<and>
   track_initWriter env0 (conn0 [video1]) 0 kf640 = conn_initWriter env0 (conn0 [video1]) 640 480 \<and>
   body env0 (conn0 [video1]) 0 False (kf640, 7) =
     (case conn_initWriter env0 (conn0 [video1]) 640 480 of
        (Some err, E1, c1) \<Rightarrow> failed err E1 c1
      | (None, E1, c1) \<Rightarrow>
          write_sample E1 (set_track c1 0 ((tracks c1 ! 0)\<lparr>lastKf := 7\<rparr>)) 0 False True (kf640, 7)) \<and>
   (\<exists>kf'. body env0 (conn0 [video1]) 0 False (delta_frame, 8) =
      write_sample env0 (conn0 [video1]) 0 kf' False (delta_frame, 8)) \<and>
   body env0 (conn0 [video1]) 0 False (kf640, 7) =
     (case track_initWriter env0 (conn0 [video1]) 0 kf640 of
        (Some err, E1, c1) \<Rightarrow> failed err E1 c1
      | (None, E1, c1) \<Rightarrow>
          write_sample E1 (set_track c1 0 ((tracks c1 ! 0)\<lparr>lastKf := 7\<rparr>)) 0 False True (kf640, 7)) \<and>
   track_initWriter env0 (conn0 [video1]) 0 short_kf = (None, env0, conn0 [video1]) \<and>
   body env0 (conn0 [video1]) 0 False (short_kf, 9000) =
     Return None env0
       (set_track (conn0 [video1]) 0 ((tracks (conn0 [video1]) ! 0)\<lparr>lastKf := 9000\<rparr>)) \<and>
   body env0 (conn0 [video1]) 0 False (delta_frame, 8) =
     write_sample env0 (conn0 [video1]) 0 False False (delta_frame, 8) \<and>
   body env0 (conn0 [video1]) 0 False (delta_frame, 8) =
     Return (Some ErrKeyframeNeeded) env0 (conn0 [video1])"
proof -
  note T = vp8_keyframe_dimensions [where E = env0 and c = "conn0 [video1]" and i = 0
      and kf = False]
  have 1: "vp8_keyframe kf640"
    using T [where data = kf640, THEN conjunct1] by (simp add: kf640_def)
  have 2: "\<not> vp8_keyframe delta_frame"
    using T [where data = delta_frame, THEN conjunct1] by (simp add: delta_frame_def)
  have pre: "kind_of (Codec (remote (tracks (conn0 [video1]) ! 0))) = VP8 \<and> 10 \<le> length kf640 \<and>
      even (unat (kf640 ! 0))"
    by (simp add: tracks_conn0_video kind_video1 kf640_def)
  from T [where data = kf640 and ts = 7, THEN conjunct2, THEN conjunct1, rule_format, OF pre]
  obtain w :: "32 word" and h :: "32 word" where
    w: "unat w = (unat (kf640 ! 6) + 256 * unat (kf640 ! 7) + 65536 * unat (kf640 ! 8) +
            16777216 * unat (kf640 ! 9)) mod 16384" and
    h: "unat h = ((unat (kf640 ! 6) + 256 * unat (kf640 ! 7) + 65536 * unat (kf640 ! 8) +
             16777216 * unat (kf640 ! 9)) div 65536) mod 16384" and
    t: "track_initWriter env0 (conn0 [video1]) 0 kf640 = conn_initWriter env0 (conn0 [video1]) w h" and
    b: "body env0 (conn0 [video1]) 0 False (kf640, 7) =
           (case conn_initWriter env0 (conn0 [video1]) w h of
              (Some err, E1, c1) \<Rightarrow> failed err E1 c1
            | (None, E1, c1) \<Rightarrow>
                write_sample E1 (set_track c1 0 ((tracks c1 ! 0)\<lparr>lastKf := 7\<rparr>))
                  0 False True (kf640, 7))"
    by (elim exE conjE) (rule that)
  have uw: "unat w = 640" using w by (simp add: kf640_def)
  have w640: "w = 640"
    using arg_cong [where f = "word_of_nat :: nat \<Rightarrow> 32 word", OF uw] by simp
  have uh: "unat h = 480" using h by (simp add: kf640_def)
  have h480: "h = 480"
    using arg_cong [where f = "word_of_nat :: nat \<Rightarrow> 32 word", OF uh] by simp
  have pre3: "kind_of (Codec (remote (tracks (conn0 [video1]) ! 0))) = VP8 \<and> delta_frame \<noteq> [] \<and>
      odd (unat (delta_frame ! 0))"
    by (simp add: tracks_conn0_video kind_video1 delta_frame_def)
  have 5: "\<exists>kf'. body env0 (conn0 [video1]) 0 False (delta_frame, 8) =
      write_sample env0 (conn0 [video1]) 0 kf' False (delta_frame, 8)"
    using T [where data = delta_frame and ts = 8, THEN conjunct2, THEN conjunct2,
        THEN conjunct1, rule_format, OF pre3] .
  have pre4: "kind_of (Codec (remote (tracks (conn0 [video1]) ! 0))) = VP8 \<and> kf640 \<noteq> [] \<and>
      even (unat (kf640 ! 0))"
    by (simp add: tracks_conn0_video kind_video1 kf640_def)
  have 6: "body env0 (conn0 [video1]) 0 False (kf640, 7) =
     (case track_initWriter env0 (conn0 [video1]) 0 kf640 of
        (Some err, E1, c1) \<Rightarrow> failed err E1 c1
      | (None, E1, c1) \<Rightarrow>
          write_sample E1 (set_track c1 0 ((tracks c1 ! 0)\<lparr>lastKf := 7\<rparr>)) 0 False True (kf640, 7))"
    using T [where data = kf640 and ts = 7, THEN conjunct2, THEN conjunct2, THEN conjunct2,
        THEN conjunct1, rule_format, OF pre4] .
  have pre5: "kind_of (Codec (remote (tracks (conn0 [video1]) ! 0))) = VP8 \<and> short_kf \<noteq> [] \<and>
      even (unat (short_kf ! 0)) \<and> length short_kf < 10"
    by (simp add: tracks_conn0_video kind_video1 short_kf_def)
  have 7: "track_initWriter env0 (conn0 [video1]) 0 short_kf = (None, env0, conn0 [video1])"
    using T [where data = short_kf and ts = 9000, THEN conjunct2, THEN conjunct2,
        THEN conjunct2, THEN conjunct2, THEN conjunct1, rule_format, OF pre5]
    by (rule conjunct1)
  have nw: "writer (tracks (conn0 [video1]) ! 0) = None"
    by (simp add: tracks_conn0_video newTrack_def)
  have len: "0 < length (tracks (conn0 [video1]))"
    by (simp add: conn0_def)
  have pre6: "kind_of (Codec (remote (tracks (conn0 [video1]) ! 0))) = VP8 \<and> short_kf \<noteq> [] \<and>
      even (unat (short_kf ! 0)) \<and> length short_kf < 10 \<and> 0 < length (tracks (conn0 [video1])) \<and>
      writer (tracks (conn0 [video1]) ! 0) = None"
    using pre5 nw len by simp
  have 8: "body env0 (conn0 [video1]) 0 False (short_kf, 9000) =
     Return None env0
       (set_track (conn0 [video1]) 0 ((tracks (conn0 [video1]) ! 0)\<lparr>lastKf := 9000\<rparr>))"
    using T [where data = short_kf and ts = 9000, THEN conjunct2, THEN conjunct2,
        THEN conjunct2, THEN conjunct2, THEN conjunct2, THEN conjunct1, rule_format, OF pre6] .
  have 9: "body env0 (conn0 [video1]) 0 False (delta_frame, 8) =
     write_sample env0 (conn0 [video1]) 0 False False (delta_frame, 8)"
    using T [where data = delta_frame and ts = 8, THEN conjunct2, THEN conjunct2,
        THEN conjunct2, THEN conjunct2, THEN conjunct2, THEN conjunct2, THEN conjunct1,
        rule_format, OF pre3] nw
    by simp
  have pre8: "kind_of (Codec (remote (tracks (conn0 [video1]) ! 0))) = VP8 \<and> delta_frame \<noteq> [] \<and>
      odd (unat (delta_frame ! 0)) \<and> writer (tracks (conn0 [video1]) ! 0) = None"
    using pre3 nw by simp
  have 10: "body env0 (conn0 [video1]) 0 False (delta_frame, 8) =
     Return (Some ErrKeyframeNeeded) env0 (conn0 [video1])"
    using T [where data = delta_frame and ts = 8, THEN conjunct2, THEN conjunct2,
        THEN conjunct2, THEN conjunct2, THEN conjunct2, THEN conjunct2, THEN conjunct2,
        rule_format, OF pre8] .
  have 34: "track_initWriter env0 (conn0 [video1]) 0 kf640 =
      conn_initWriter env0 (conn0 [video1]) 640 480 \<and>
    body env0 (conn0 [video1]) 0 False (kf640, 7) =
     (case conn_initWriter env0 (conn0 [video1]) 640 480 of
        (Some err, E1, c1) \<Rightarrow> failed err E1 c1
      | (None, E1, c1) \<Rightarrow>
          write_sample E1 (set_track c1 0 ((tracks c1 ! 0)\<lparr>lastKf := 7\<rparr>)) 0 False True (kf640, 7))"
    using t b unfolding w640 h480 by (rule conjI)
  show ?thesis
    by (intro conjI) (rule 1 2 34 [THEN conjunct1] 34 [THEN conjunct2] 5 6 7 8 9 10)+
qed

subsection \<open>What the connection's operations change\<close>

lemma blocks_append: "blocks (xs @ ys) = blocks xs @ blocks ys"
  by (induction xs rule: blocks.induct) auto

lemma closeWriters_unset: "closeWriters E ts = (E', ts') \<Longrightarrow> ts' = map unset ts"
  using closeWriters_eq [of E ts E' ts'] by (simp add: unset_def)

lemma closeWriters_trace:
  "closeWriters E ts = (E', ts') \<Longrightarrow> \<exists>new. trace E' = trace E @ new \<and> blocks new = []"
proof (induction ts arbitrary: E E' ts')
  case Nil
  then show ?case by simp
next
  case (Cons t ts)
  show ?case
  proof (cases "writer t")
    case None
    with Cons.prems obtain ts1 where "closeWriters E ts = (E', ts1)"
      by (auto split: prod.splits)
    then show ?thesis by (rule Cons.IH)
  next
    case (Some w)
    with Cons.prems obtain ts1 where "closeWriters (emit (WriterClosed w) E) ts = (E', ts1)"
      by (auto split: prod.splits)
    from Cons.IH [OF this] obtain new where
      "trace E' = trace (emit (WriterClosed w) E) @ new" "blocks new = []" by blast
    then have "trace E' = trace E @ (WriterClosed w # new) \<and> blocks (WriterClosed w # new) = []"
      by (simp add: emit_def)
    then show ?thesis by blast
  qed
qed

lemma OpenFile_trace:
  "OpenFile E p = (r, E') \<Longrightarrow> \<exists>new. trace E' = trace E @ new \<and> blocks new = []"
  by (auto simp: OpenFile_def emit_def split: open_result.splits)

lemma openLoop_trace:
  "openLoop E d f counter = (r, E') \<Longrightarrow> \<exists>new. trace E' = trace E @ new \<and> blocks new = []"
proof (induction E d f counter rule: openLoop.induct)
  case (1 E dir filename counter)
  show ?case
  proof (cases "counter < 100")
    case True
    show ?thesis
    proof (cases "fs E (candidate dir filename counter) = ErrExist")
      case e: True
      with True 1(2) have "openLoop E dir filename (counter + 1) = (r, E')"
        by (subst (asm) openLoop.simps) simp
      with 1(1) [OF True e] show ?thesis by blast
    next
      case False
      with True 1(2) have "OpenFile E (candidate dir filename counter) = (r, E')"
        by (subst (asm) openLoop.simps) (auto split: open_result.splits)
      then show ?thesis by (rule OpenFile_trace)
    qed
  next
    case False
    with 1(2) have "E' = E" by (subst (asm) openLoop.simps) auto
    then show ?thesis by simp
  qed
qed

lemma reopen_cases:
  assumes "reopen E c = (r, E', c')"
  shows "(\<exists>new. trace E' = trace E @ new \<and> blocks new = []) \<and>
         ((\<exists>err. r = Some err \<and> err \<noteq> UnknownTrackType) \<and>
            c' = c\<lparr>tracks := map unset (tracks c), ofile := None\<rparr> \<or>
          (\<exists>f. r = None \<and> c' = c\<lparr>tracks := map unset (tracks c), ofile := Some f\<rparr>))"
proof -
  obtain E1 ts where cw: "closeWriters E (tracks c) = (E1, ts)"
    by (cases "closeWriters E (tracks c)")
  then have ts: "ts = map unset (tracks c)" by (rule closeWriters_unset)
  from cw obtain n1 where n1: "trace E1 = trace E @ n1" "blocks n1 = []"
    using closeWriters_trace by blast
  obtain r2 E2 where od: "openDiskFile E1 (directory c) (label c) = (r2, E2)"
    by (cases "openDiskFile E1 (directory c) (label c)")
  then obtain n2 where n2: "trace E2 = trace E1 @ n2" "blocks n2 = []"
    unfolding openDiskFile_def using openLoop_trace by blast
  have E': "E' = E2" using assms cw od
    by (auto simp: reopen_def Let_def split: sum.splits)
  have tr: "trace E' = trace E @ (n1 @ n2) \<and> blocks (n1 @ n2) = []"
    using n1 n2 E' by (simp add: blocks_append)
  show ?thesis
  proof (cases r2)
    case (Inl err)
    then have "err \<noteq> UnknownTrackType"
      using od openLoop_error unfolding openDiskFile_def by blast
    with Inl assms cw od ts tr show ?thesis
      by (auto simp: reopen_def Let_def)
  next
    case (Inr f)
    with assms cw od ts tr show ?thesis
      by (auto simp: reopen_def Let_def)
  qed
qed

lemma conn_initWriter_cases:
  assumes "conn_initWriter E c w h = (r, E', c')"
  shows "(\<exists>new. trace E' = trace E @ new \<and> blocks new = []) \<and>
         (E' = E \<and> c' = c \<and>
            (r = None \<and> ofile c \<noteq> None \<and> w = width c \<and> h = height c \<or>
             r = Some UnknownTrackType) \<or>
          (\<exists>err. r = Some err \<and> err \<noteq> UnknownTrackType) \<and>
            c' = c\<lparr>tracks := map unset (tracks c), ofile := None\<rparr> \<or>
          (\<exists>f es. r = None \<and> entries_from 0 (tracks c) w h = Inr es \<and>
             MuxerCreated f es \<in> set (trace E') \<and>
             (\<exists>n. trace E' = trace E @ n @ [MuxerCreated f es] \<and> blocks n = []) \<and>
             \<not> (ofile c \<noteq> None \<and> w = width c \<and> h = height c) \<and>
             c' = c\<lparr>tracks := assign_writers f (map unset (tracks c)), ofile := Some f,
                    width := w, height := h\<rparr>))"
proof (cases "ofile c \<noteq> None \<and> w = width c \<and> h = height c")
  case True
  then have "conn_initWriter E c w h = (None, E, c)" by (simp add: conn_initWriter_def)
  with assms True show ?thesis by simp
next
  case nop: False
  have nf: "(if ofile c \<noteq> None \<and> w = width c \<and> h = height c then a else b) = b"
    for a b :: "error option \<times> env \<times> diskConn"
    using nop by (simp only: if_False)
  show ?thesis
  proof (cases "entries_from 0 (tracks c) w h")
    case (Inl err)
    then have "err = UnknownTrackType" by (rule entries_from_Inl)
    with Inl have "conn_initWriter E c w h = (Some UnknownTrackType, E, c)"
      unfolding conn_initWriter_def nf by simp
    with assms show ?thesis by simp
  next
    case (Inr es)
    obtain r1 E1 c1 where ro: "reopen E c = (r1, E1, c1)" by (cases "reopen E c")
    note rc = reopen_cases [OF ro]
    have "\<exists>new. trace E1 = trace E @ new \<and> blocks new = []" by (rule rc [THEN conjunct1])
    then obtain n1 where n1: "trace E1 = trace E @ n1" "blocks n1 = []"
      by (elim exE conjE)
    show ?thesis
    proof (cases r1)
      case (Some err)
      have "err \<noteq> UnknownTrackType \<and> c1 = c\<lparr>tracks := map unset (tracks c), ofile := None\<rparr>"
        using rc [THEN conjunct2] Some by simp
      moreover have "conn_initWriter E c w h = (Some err, E1, c1)"
        unfolding conn_initWriter_def nf using Inr ro Some by simp
      ultimately show ?thesis using assms n1 by simp
    next
      case None
      have "\<exists>f. c1 = c\<lparr>tracks := map unset (tracks c), ofile := Some f\<rparr>"
        using rc [THEN conjunct2] None by simp
      then obtain f where c1: "c1 = c\<lparr>tracks := map unset (tracks c), ofile := Some f\<rparr>"
        by (elim exE)
      show ?thesis
      proof (cases "muxer_result E1 f es")
        case (Inl m)
        have "conn_initWriter E c w h =
            (Some (MuxerError m), emit (FileClosed f) E1, c1\<lparr>ofile := None\<rparr>)"
          unfolding conn_initWriter_def nf using Inr ro None c1 Inl
          by (simp add: close_file_def)
        with assms have r: "r = Some (MuxerError m)" and E': "E' = emit (FileClosed f) E1"
          and c': "c' = c1\<lparr>ofile := None\<rparr>" by simp_all
        have "trace E' = trace E @ (n1 @ [FileClosed f]) \<and> blocks (n1 @ [FileClosed f]) = []"
          using n1 E' by (simp add: emit_def blocks_append)
        then have "\<exists>new. trace E' = trace E @ new \<and> blocks new = []" by blast
        moreover have "c' = c\<lparr>tracks := map unset (tracks c), ofile := None\<rparr>"
          using c' c1 by simp
        ultimately show ?thesis using r by simp
      next
        case mux: (Inr n)
        let ?E2 = "emit (MuxerCreated f es) E1"
        show ?thesis
        proof (cases "n = length (tracks c)")
          case True
          have "conn_initWriter E c w h =
              (None, ?E2, c1\<lparr>width := w, height := h, tracks := assign_writers f (tracks c1)\<rparr>)"
            unfolding conn_initWriter_def nf using Inr ro None c1 mux True
            by (simp add: close_file_def Let_def)
          with assms have r: "r = None" and E': "E' = ?E2"
            and c': "c' = c1\<lparr>width := w, height := h, tracks := assign_writers f (tracks c1)\<rparr>"
            by simp_all
          have "trace E' = trace E @ (n1 @ [MuxerCreated f es]) \<and>
              blocks (n1 @ [MuxerCreated f es]) = []"
            using n1 E' by (simp add: emit_def blocks_append)
          then have t: "\<exists>new. trace E' = trace E @ new \<and> blocks new = []" by blast
          have m: "MuxerCreated f es \<in> set (trace E')" using E' by (simp add: emit_def)
          have "trace E' = trace E @ n1 @ [MuxerCreated f es] \<and> blocks n1 = []"
            using n1 E' by (simp add: emit_def)
          then have t2: "\<exists>n. trace E' = trace E @ n @ [MuxerCreated f es] \<and> blocks n = []"
            by blast
          have "c' = c\<lparr>tracks := assign_writers f (map unset (tracks c)), ofile := Some f,
                    width := w, height := h\<rparr>"
            using c' c1 by simp
          with t t2 m r Inr nop show ?thesis by blast
        next
          case False
          have "conn_initWriter E c w h =
              (Some UnexpectedWriters, emit (FileClosed f) ?E2, c1\<lparr>ofile := None\<rparr>)"
            unfolding conn_initWriter_def nf using Inr ro None c1 mux False
            by (simp add: close_file_def Let_def)
          with assms have r: "r = Some UnexpectedWriters" and E': "E' = emit (FileClosed f) ?E2"
            and c': "c' = c1\<lparr>ofile := None\<rparr>" by simp_all
          have "trace E' = trace E @ (n1 @ [MuxerCreated f es, FileClosed f]) \<and>
              blocks (n1 @ [MuxerCreated f es, FileClosed f]) = []"
            using n1 E' by (simp add: emit_def blocks_append)
          then have "\<exists>new. trace E' = trace E @ new \<and> blocks new = []" by blast
          moreover have "c' = c\<lparr>tracks := map unset (tracks c), ofile := None\<rparr>"
            using c' c1 by simp
          ultimately show ?thesis using r by simp
        qed
      qed
    qed
  qed
qed

subsection \<open>The origin and the rebased timestamp\<close>

lemma anchor_low: "ucast (ucast (ts :: 32 word) OR push_bit 32 1 :: 64 word) = ts"
proof (rule bit_word_eqI)
  fix n assume "n < LENGTH(32)"
  then show "bit (ucast (ucast ts OR push_bit 32 1 :: 64 word) :: 32 word) n = bit ts n"
    by (simp only: bit_ucast_iff bit_or_iff bit_push_bit_iff) auto
qed

lemma anchor_bit: "bit (ucast (ts :: 32 word) OR push_bit 32 1 :: 64 word) 32"
  by (simp only: bit_or_iff bit_push_bit_iff) simp

lemma anchor_nonzero: "(ucast (ts :: 32 word) OR push_bit 32 1 :: 64 word) \<noteq> 0"
proof
  assume a: "ucast ts OR push_bit 32 1 = (0 :: 64 word)"
  have "bit (ucast ts OR push_bit 32 1 :: 64 word) 32" by (rule anchor_bit)
  then have "bit (0 :: 64 word) 32" unfolding a .
  then show False by simp
qed

lemma divisor_zero: "((cr :: 32 word) div 1000 = 0) \<longleftrightarrow> unat cr < 1000"
proof -
  have "(cr div 1000 = 0) \<longleftrightarrow> (unat (cr div 1000) = 0)" by (simp add: unat_eq_0)
  also have "\<dots> \<longleftrightarrow> (unat cr div 1000 = 0)" by (simp add: unat_div_distrib)
  also have "\<dots> \<longleftrightarrow> unat cr < 1000" by (auto simp: div_eq_0_iff)
  finally show ?thesis .
qed

lemma millis: "uint ((x :: 32 word) div (cr div 1000)) = int (unat x div (unat cr div 1000))"
proof -
  have "uint (x div (cr div 1000)) = uint x div (uint cr div 1000)"
    by (simp add: uint_div_distrib)
  also have "\<dots> = int (unat x) div (int (unat cr) div 1000)"
    by (simp only: uint_nat)
  also have "\<dots> = int (unat x div (unat cr div 1000))"
    by (simp add: zdiv_int)
  finally show ?thesis .
qed

lemma write_sample_unset:
  "writer (tracks c ! i) = None \<Longrightarrow>
   write_sample E c i kn kf s = Return (if \<not> kf then Some ErrKeyframeNeeded else None) E c"
  by (cases s) (simp add: write_sample_def)

lemma write_sample_set:
  assumes "writer (tracks c ! i) = Some w"
  shows "outcome_conn (write_sample E c i kn kf (data, ts)) =
           set_track c i ((tracks c ! i)\<lparr>origin :=
             (if origin (tracks c ! i) = 0 then ucast ts OR push_bit 32 1
              else origin (tracks c ! i))\<rparr>) \<and>
         outcome_env (write_sample E c i kn kf (data, ts)) =
           (if unat (ClockRate (Codec (remote (tracks c ! i)))) < 1000 then E
            else emit (BlockWritten w kf
                   (int (unat (ts - ucast (if origin (tracks c ! i) = 0
                                           then ucast ts OR push_bit 32 1
                                           else origin (tracks c ! i))) div
                         (unat (ClockRate (Codec (remote (tracks c ! i)))) div 1000)))
                   data) E)"
proof (cases "unat (ClockRate (Codec (remote (tracks c ! i)))) < 1000")
  case True
  then have "ClockRate (Codec (remote (tracks c ! i))) div 1000 = 0"
    by (simp only: divisor_zero)
  with assms True show ?thesis
    by (simp add: write_sample_def Let_def)
next
  case False
  then have "ClockRate (Codec (remote (tracks c ! i))) div 1000 \<noteq> 0"
    by (simp only: divisor_zero not_False_eq_True)
  with assms False show ?thesis
    by (cases "write_result E w kf
          (uint ((ts - ucast (if origin (tracks c ! i) = 0 then ucast ts OR push_bit 32 1
                              else origin (tracks c ! i))) div
                 (ClockRate (Codec (remote (tracks c ! i))) div 1000))) data")
      (simp_all add: write_sample_def Let_def millis)
qed


subsection \<open>What stays as it is\<close>

lemma unset_fields [simp]:
  "remote (unset t) = remote t" "origin (unset t) = origin t"
  "builder (unset t) = builder t" "lastKf (unset t) = lastKf t" "writer (unset t) = None"
  "unset (unset t) = unset t" "unset (t\<lparr>writer := x\<rparr>) = unset t"
  by (simp_all add: unset_def)

lemma length_assign_writers [simp]: "length (assign_writers f ts) = length ts"
  by (simp add: assign_writers_def)

lemma nth_assign_writers:
  "j < length ts \<Longrightarrow> assign_writers f ts ! j = (ts ! j)\<lparr>writer := Some (BlockWriter f j)\<rparr>"
  by (simp add: assign_writers_def nth_enumerate_eq)

lemma unset_assign_writers: "map unset (assign_writers f ts) = map unset ts"
  by (rule nth_equalityI) (simp_all add: nth_assign_writers)

lemma unset_nth:
  assumes "map unset ts' = map unset ts" "j < length ts"
  shows "origin (ts' ! j) = origin (ts ! j) \<and> remote (ts' ! j) = remote (ts ! j) \<and>
         builder (ts' ! j) = builder (ts ! j) \<and> lastKf (ts' ! j) = lastKf (ts ! j)"
proof -
  have l: "length ts' = length ts" using assms(1) by (rule map_eq_imp_length_eq)
  have "map unset ts' ! j = map unset ts ! j" using assms(1) by simp
  then have u: "unset (ts' ! j) = unset (ts ! j)" using assms(2) l by simp
  show ?thesis
    using arg_cong [OF u, of origin] arg_cong [OF u, of remote]
      arg_cong [OF u, of builder] arg_cong [OF u, of lastKf]
    by simp
qed

lemma conn_initWriter_unset:
  assumes "conn_initWriter E c w h = (r, E', c')"
  shows "map unset (tracks c') = map unset (tracks c) \<and> hasVideo c' = hasVideo c \<and>
         blocks (trace E') = blocks (trace E)"
proof -
  note cs = conn_initWriter_cases [OF assms]
  from cs [THEN conjunct1] have b: "blocks (trace E') = blocks (trace E)"
    by (auto simp: blocks_append)
  from cs [THEN conjunct2] have "map unset (tracks c') = map unset (tracks c) \<and>
      hasVideo c' = hasVideo c"
    by (elim disjE conjE exE) (simp_all add: unset_assign_writers comp_def)
  with b show ?thesis by simp
qed

lemma track_initWriter_unset:
  assumes "track_initWriter E c i data = (r, E', c')"
  shows "map unset (tracks c') = map unset (tracks c) \<and> hasVideo c' = hasVideo c \<and>
         blocks (trace E') = blocks (trace E)"
proof (cases "kind_of (Codec (remote (tracks c ! i))) = VP8 \<and> \<not> length data < 10 \<and>
    vp8_keyframe data")
  case True
  with assms have "conn_initWriter E c (vp8_raw data AND 0x3FFF)
      (drop_bit 16 (vp8_raw data) AND 0x3FFF) = (r, E', c')"
    by (simp add: track_initWriter_def Let_def)
  then show ?thesis by (rule conn_initWriter_unset)
next
  case False
  with assms have "E' = E \<and> c' = c"
    by (auto simp: track_initWriter_def Let_def split: kind.splits if_splits)
  then show ?thesis by simp
qed

lemma stable_refl: "stable c c"
  by (simp add: stable_def list_all2_conv_all_nth)

lemma stable_trans: "stable a b \<Longrightarrow> stable b c \<Longrightarrow> stable a c"
  unfolding stable_def
  by (auto simp: list_all2_conv_all_nth)

lemma stable_length: "stable c c' \<Longrightarrow> length (tracks c') = length (tracks c)"
  by (auto simp: stable_def dest: list_all2_lengthD)


lemma stable_unset:
  assumes "map unset (tracks c') = map unset (tracks c)" "hasVideo c' = hasVideo c"
  shows "stable c c'"
proof -
  have l: "length (tracks c') = length (tracks c)" using assms(1) by (rule map_eq_imp_length_eq)
  have "map remote (tracks c') = map remote (tracks c)"
    using l unset_nth [OF assms(1)] by (intro nth_equalityI) simp_all
  moreover have "list_all2 (\<lambda>t t'. origin t \<noteq> 0 \<longrightarrow> origin t' = origin t) (tracks c) (tracks c')"
    using l unset_nth [OF assms(1)] by (simp add: list_all2_conv_all_nth)
  ultimately show ?thesis using assms(2) by (simp add: stable_def)
qed

lemma stable_set_track:
  assumes "i < length (tracks c)" "remote t' = remote (tracks c ! i)"
    "origin (tracks c ! i) \<noteq> 0 \<longrightarrow> origin t' = origin (tracks c ! i)"
  shows "stable c (set_track c i t')"
  using assms
  by (auto simp: stable_def set_track_def list_all2_conv_all_nth nth_list_update map_update
      list_update_same_conv)

lemma stable_warn: "warn E c m = (E', c') \<Longrightarrow> stable c c'"
  by (auto simp: warn_def stable_def list_all2_conv_all_nth split: if_splits)

lemma warn_blocks: "warn E c m = (E', c') \<Longrightarrow> blocks (trace E') = blocks (trace E)"
  by (auto simp: warn_def emit_def blocks_append split: if_splits)

lemma failed_stable:
  "stable c (outcome_conn (failed err E c)) \<and>
   blocks (trace (outcome_env (failed err E c))) = blocks (trace E)"
  by (cases "warn E c (''Write to disk '' @ Error err)")
    (simp add: failed_def stable_warn warn_blocks)

lemma stable_write_sample:
  "i < length (tracks c) \<Longrightarrow> stable c (outcome_conn (write_sample E c i kn kf s))"
proof (cases "writer (tracks c ! i)")
  case None
  then show ?thesis by (simp add: write_sample_unset stable_refl)
next
  case (Some w)
  assume "i < length (tracks c)"
  then show ?thesis
    by (cases s) (simp add: write_sample_set [OF Some] stable_set_track)
qed

subsection \<open>The shape of one turn of the loop\<close>

lemma body_shape:
  "(kind_of (Codec (remote (tracks c ! i))) = VP8 \<and> data = [] \<and>
      body E c i kn (data, ts) = Continue kn E c) \<or>
   (\<exists>err E1 c1.
      body E c i kn (data, ts) = failed err E1 c1 \<and>
      (kind_of (Codec (remote (tracks c ! i))) = VP8 \<and> data \<noteq> [] \<and> vp8_keyframe data \<and>
         track_initWriter E c i data = (Some err, E1, c1) \<or>
       kind_of (Codec (remote (tracks c ! i))) \<noteq> VP8 \<and> writer (tracks c ! i) = None \<and>
         \<not> hasVideo c \<and> conn_initWriter E c 0 0 = (Some err, E1, c1))) \<or>
   (\<exists>E1 c2 kn' kf.
      body E c i kn (data, ts) = write_sample E1 c2 i kn' kf (data, ts) \<and>
      (E1 = E \<and> c2 = c \<and>
         (kind_of (Codec (remote (tracks c ! i))) = VP8 \<and> data \<noteq> [] \<and>
            \<not> vp8_keyframe data \<and> \<not> kf \<or>
          kind_of (Codec (remote (tracks c ! i))) \<noteq> VP8 \<and> kf \<and>
            (writer (tracks c ! i) \<noteq> None \<or> hasVideo c)) \<or>
       kind_of (Codec (remote (tracks c ! i))) = VP8 \<and> data \<noteq> [] \<and> vp8_keyframe data \<and> kf \<and>
         (\<exists>c1. track_initWriter E c i data = (None, E1, c1) \<and>
            c2 = set_track c1 i ((tracks c1 ! i)\<lparr>lastKf := ts\<rparr>)) \<or>
       kind_of (Codec (remote (tracks c ! i))) \<noteq> VP8 \<and> kf \<and> writer (tracks c ! i) = None \<and>
         \<not> hasVideo c \<and> conn_initWriter E c 0 0 = (None, E1, c2)))"
proof (cases "kind_of (Codec (remote (tracks c ! i))) = VP8")
  case vp8: True
  show ?thesis
  proof (cases "data = []")
    case True
    with vp8 show ?thesis by (simp add: body_def)
  next
    case ne: False
    then have l: "\<not> length data < 1" by (cases data) auto
    show ?thesis
    proof (cases "vp8_keyframe data")
      case k: True
      obtain r E1 c1 where ti: "track_initWriter E c i data = (r, E1, c1)"
        by (cases "track_initWriter E c i data")
      show ?thesis
      proof (cases r)
        case None
        with vp8 ne l k ti have
          "body E c i kn (data, ts) =
             write_sample E1 (set_track c1 i ((tracks c1 ! i)\<lparr>lastKf := ts\<rparr>)) i kn True (data, ts)"
          by (simp add: body_def)
        with vp8 ne k ti None show ?thesis by blast
      next
        case (Some err)
        with vp8 ne l k ti have "body E c i kn (data, ts) = failed err E1 c1"
          by (simp add: body_def)
        with vp8 ne k ti Some show ?thesis by blast
      qed
    next
      case k: False
      have "\<exists>kn'. body E c i kn (data, ts) = write_sample E c i kn' False (data, ts)"
        using vp8 l k by (auto simp: body_def Let_def)
      with vp8 ne k show ?thesis by blast
    qed
  qed
next
  case nv: False
  show ?thesis
  proof (cases "writer (tracks c ! i) = None \<and> \<not> hasVideo c")
    case True
    obtain r E1 c1 where ci: "conn_initWriter E c 0 0 = (r, E1, c1)"
      by (cases "conn_initWriter E c 0 0")
    show ?thesis
    proof (cases r)
      case None
      with nv True ci have "body E c i kn (data, ts) = write_sample E1 c1 i kn True (data, ts)"
        by (cases "kind_of (Codec (remote (tracks c ! i)))") (simp_all add: body_def)
      with nv True ci None show ?thesis by blast
    next
      case (Some err)
      with nv True ci have "body E c i kn (data, ts) = failed err E1 c1"
        by (cases "kind_of (Codec (remote (tracks c ! i)))") (simp_all add: body_def)
      with nv True ci Some show ?thesis by blast
    qed
  next
    case False
    with nv have "body E c i kn (data, ts) = write_sample E c i kn True (data, ts)"
      by (cases "kind_of (Codec (remote (tracks c ! i)))") (auto simp: body_def)
    with nv False show ?thesis by blast
  qed
qed


lemma body_outcomes:
  assumes "i < length (tracks c)"
  shows "body E c i kn (data, ts) = Continue kn E c \<or>
    (\<exists>err E1 c1. body E c i kn (data, ts) = failed err E1 c1 \<and> stable c c1 \<and>
       blocks (trace E1) = blocks (trace E)) \<or>
    (\<exists>E1 c2 kn' kf. body E c i kn (data, ts) = write_sample E1 c2 i kn' kf (data, ts) \<and>
       stable c c2 \<and> blocks (trace E1) = blocks (trace E) \<and>
       origin (tracks c2 ! i) = origin (tracks c ! i))"
  using body_shape [of c i data E kn ts]
proof (elim disjE exE conjE)
  fix err E1 c1
  assume "body E c i kn (data, ts) = failed err E1 c1"
    "track_initWriter E c i data = (Some err, E1, c1)"
  then show ?thesis
    using track_initWriter_unset stable_unset by blast
next
  fix err E1 c1
  assume "body E c i kn (data, ts) = failed err E1 c1"
    "conn_initWriter E c 0 0 = (Some err, E1, c1)"
  then show ?thesis
    using conn_initWriter_unset stable_unset by blast
next
  fix E1 c2 kn' kf c1
  assume b: "body E c i kn (data, ts) = write_sample E1 c2 i kn' kf (data, ts)"
    and t: "track_initWriter E c i data = (None, E1, c1)"
    and c2: "c2 = set_track c1 i ((tracks c1 ! i)\<lparr>lastKf := ts\<rparr>)"
  note u = track_initWriter_unset [OF t]
  have s1: "stable c c1" using u by (simp add: stable_unset)
  have i1: "i < length (tracks c1)" using assms stable_length [OF s1] by simp
  have "stable c1 c2" unfolding c2 using i1 by (intro stable_set_track) simp_all
  then have s2: "stable c c2" using s1 stable_trans by blast
  have "origin (tracks c2 ! i) = origin (tracks c1 ! i)"
    unfolding c2 using i1 by (simp add: set_track_def)
  also have "\<dots> = origin (tracks c ! i)"
    using unset_nth [OF u [THEN conjunct1] assms] by simp
  finally show ?thesis using b s2 u by blast
next
  fix E1 c2 kn' kf
  assume b: "body E c i kn (data, ts) = write_sample E1 c2 i kn' kf (data, ts)"
    and t: "conn_initWriter E c 0 0 = (None, E1, c2)"
  note u = conn_initWriter_unset [OF t]
  have "origin (tracks c2 ! i) = origin (tracks c ! i)"
    using unset_nth [OF u [THEN conjunct1] assms] by simp
  with b u show ?thesis using stable_unset by blast
qed (blast intro: stable_refl)+

lemma stable_body:
  assumes "i < length (tracks c)"
  shows "stable c (outcome_conn (body E c i kn (data, ts)))"
  using body_outcomes [OF assms, of E kn data ts]
proof (elim disjE exE conjE)
  assume "body E c i kn (data, ts) = Continue kn E c"
  then show ?thesis by (simp add: stable_refl)
next
  fix err E1 c1
  assume "body E c i kn (data, ts) = failed err E1 c1" "stable c c1"
  then show ?thesis using failed_stable [of c1 err E1] stable_trans by auto
next
  fix E1 c2 kn' kf
  assume b: "body E c i kn (data, ts) = write_sample E1 c2 i kn' kf (data, ts)"
    and s: "stable c c2"
  have "i < length (tracks c2)" using assms stable_length [OF s] by simp
  then have "stable c2 (outcome_conn (write_sample E1 c2 i kn' kf (data, ts)))"
    by (rule stable_write_sample)
  with b s show ?thesis using stable_trans by auto
qed

lemma stable_set_builder: "i < length (tracks c) \<Longrightarrow> stable c (set_builder c i q)"
  unfolding set_builder_def by (intro stable_set_track) simp_all

lemma stable_loop:
  "i < length (tracks c) \<Longrightarrow> loop E c i kn q = (r, E', c') \<Longrightarrow> stable c c'"
proof (induction q arbitrary: E c kn)
  case Nil
  then show ?case by (auto simp: stable_set_builder)
next
  case (Cons s q)
  obtain data ts where s: "s = (data, ts)" by (cases s)
  have sb: "stable c (outcome_conn (body E c i kn s))"
    unfolding s using Cons.prems(1) by (rule stable_body)
  show ?case
  proof (cases "body E c i kn s")
    case (Continue k E1 c1)
    with sb have s1: "stable c c1" by simp
    then have "i < length (tracks c1)" using Cons.prems(1) stable_length by simp
    moreover have "loop E1 c1 i k q = (r, E', c')" using Cons.prems(2) Continue by simp
    ultimately have "stable c1 c'" by (rule Cons.IH)
    with s1 show ?thesis by (rule stable_trans)
  next
    case (Return r1 E1 c1)
    with sb have s1: "stable c c1" by simp
    then have "i < length (tracks c1)" using Cons.prems(1) stable_length by simp
    then have "stable c1 (set_builder c1 i q)" by (rule stable_set_builder)
    moreover have "c' = set_builder c1 i q" using Cons.prems(2) Return by simp
    ultimately show ?thesis using s1 stable_trans by blast
  qed
qed

lemma stable_WriteRTP:
  "i < length (tracks c) \<Longrightarrow> WriteRTP E c i p = (r, E', c') \<Longrightarrow> stable c c'"
  by (auto simp: WriteRTP_def stable_refl split: option.splits if_splits dest: stable_loop)

lemma stable_WriteRTPs:
  "\<forall>x \<in> set ps. fst x < length (tracks c) \<Longrightarrow> stable c (snd (WriteRTPs E c ps))"
proof (induction ps arbitrary: E c)
  case Nil
  then show ?case by (simp add: stable_refl)
next
  case (Cons x ps)
  obtain i p where x: "x = (i, p)" by (cases x)
  obtain r E1 c1 where w: "WriteRTP E c i p = (r, E1, c1)" by (cases "WriteRTP E c i p")
  have s1: "stable c c1" using Cons.prems x w stable_WriteRTP by auto
  then have "\<forall>x \<in> set ps. fst x < length (tracks c1)"
    using Cons.prems stable_length by simp
  then have "stable c1 (snd (WriteRTPs E1 c1 ps))" by (rule Cons.IH)
  with s1 have "stable c (snd (WriteRTPs E1 c1 ps))" by (rule stable_trans)
  then show ?case using x w by simp
qed


subsection \<open>Timestamps\<close>





lemma audio_conn_track:
  "tracks audio_conn = [(newTrack audio0)\<lparr>writer := Some (BlockWriter ''rec/room/T.webm'' 0)\<rparr>]"
  by (simp add: audio_conn_def conn0_def assign_writers_def)



subsection \<open>The origin is recorded once\<close>

lemma stable_origin:
  "stable c c' \<Longrightarrow> j < length (tracks c) \<Longrightarrow> origin (tracks c ! j) \<noteq> 0 \<Longrightarrow>
   origin (tracks c' ! j) = origin (tracks c ! j)"
  by (auto simp: stable_def list_all2_conv_all_nth)

text \<open>
  Claim C10.  Writing a sample leaves the origin of the track nonzero: an unset origin
  becomes the timestamp of the sample with bit 32 set, which is not zero even for the
  timestamp 0, and its low 32 bits are that timestamp; an origin that is set is kept,
  and the sample is rebased against it.  No turn of the loop and no run of WriteRTP
  calls on any tracks of the connection changes an origin that is set.
\<close>

theorem origin_recorded_once:
  "(i < length (tracks c) \<and> writer (tracks c ! i) = Some w \<longrightarrow>
      origin (tracks (outcome_conn (write_sample E c i kn kf (data, ts))) ! i) \<noteq> 0 \<and>
      (origin (tracks c ! i) = 0 \<longrightarrow>
         origin (tracks (outcome_conn (write_sample E c i kn kf (data, ts))) ! i) =
           ucast ts OR push_bit 32 1 \<and>
         bit (origin (tracks (outcome_conn (write_sample E c i kn kf (data, ts))) ! i)) 32 \<and>
         ucast (origin (tracks (outcome_conn (write_sample E c i kn kf (data, ts))) ! i)) = ts) \<and>
      (origin (tracks c ! i) \<noteq> 0 \<longrightarrow>
         origin (tracks (outcome_conn (write_sample E c i kn kf (data, ts))) ! i) =
           origin (tracks c ! i)) \<and>
      (origin (tracks c ! i) \<noteq> 0 \<and> 1000 \<le> unat (ClockRate (Codec (remote (tracks c ! i)))) \<longrightarrow>
         trace (outcome_env (write_sample E c i kn kf (data, ts))) =
           trace E @
             [BlockWritten w kf
                (int (unat (ts - ucast (origin (tracks c ! i))) div
                      (unat (ClockRate (Codec (remote (tracks c ! i)))) div 1000)))
                data])) \<and>
   (i < length (tracks c) \<longrightarrow>
      (\<forall>j < length (tracks c). origin (tracks c ! j) \<noteq> 0 \<longrightarrow>
         origin (tracks (outcome_conn (body E c i kn (data, ts))) ! j) = origin (tracks c ! j))) \<and>
   ((\<forall>x \<in> set ps. fst x < length (tracks c)) \<longrightarrow>
      (\<forall>j < length (tracks c). origin (tracks c ! j) \<noteq> 0 \<longrightarrow>
         origin (tracks (snd (WriteRTPs E c ps)) ! j) = origin (tracks c ! j)))"
proof (intro conjI impI allI; (elim conjE)?)
  assume i: "i < length (tracks c)" and w: "writer (tracks c ! i) = Some w"
  note ws = write_sample_set [OF w, of E kn kf data ts]
  have o: "origin (tracks (outcome_conn (write_sample E c i kn kf (data, ts))) ! i) =
      (if origin (tracks c ! i) = 0 then ucast ts OR push_bit 32 1 else origin (tracks c ! i))"
    using ws [THEN conjunct1] i by (simp add: set_track_def)
  show "origin (tracks (outcome_conn (write_sample E c i kn kf (data, ts))) ! i) \<noteq> 0"
  proof (cases "origin (tracks c ! i) = 0")
    case True
    then show ?thesis unfolding o by (simp only: simp_thms if_True anchor_nonzero)
  next
    case False
    then show ?thesis unfolding o by (simp only: simp_thms if_False)
  qed
  {
    assume z: "origin (tracks c ! i) = 0"
    show "origin (tracks (outcome_conn (write_sample E c i kn kf (data, ts))) ! i) =
           ucast ts OR push_bit 32 1"
      unfolding o using z by (simp only: simp_thms if_True)
    show "bit (origin (tracks (outcome_conn (write_sample E c i kn kf (data, ts))) ! i)) 32"
      unfolding o using z anchor_bit [of ts] by (simp only: simp_thms if_True)
    show "ucast (origin (tracks (outcome_conn (write_sample E c i kn kf (data, ts))) ! i)) = ts"
      unfolding o using z anchor_low [of ts] by (simp only: simp_thms if_True)
  }
  {
    assume nz: "origin (tracks c ! i) \<noteq> 0"
    show "origin (tracks (outcome_conn (write_sample E c i kn kf (data, ts))) ! i) =
           origin (tracks c ! i)"
      unfolding o using nz by (simp only: simp_thms if_False)
    assume cr: "1000 \<le> unat (ClockRate (Codec (remote (tracks c ! i))))"
    show "trace (outcome_env (write_sample E c i kn kf (data, ts))) =
           trace E @
             [BlockWritten w kf
                (int (unat (ts - ucast (origin (tracks c ! i))) div
                      (unat (ClockRate (Codec (remote (tracks c ! i)))) div 1000)))
                data]"
      using ws [THEN conjunct2] nz cr by (simp add: emit_def)
  }
next
  fix j
  assume "i < length (tracks c)" "j < length (tracks c)" "origin (tracks c ! j) \<noteq> 0"
  then show "origin (tracks (outcome_conn (body E c i kn (data, ts))) ! j) = origin (tracks c ! j)"
    using stable_body stable_origin by blast
next
  fix j
  assume "\<forall>x \<in> set ps. fst x < length (tracks c)" "j < length (tracks c)"
    "origin (tracks c ! j) \<noteq> 0"
  then show "origin (tracks (snd (WriteRTPs E c ps)) ! j) = origin (tracks c ! j)"
    using stable_WriteRTPs stable_origin by blast
qed


theorem origin_recorded_once_witness:
  "origin (tracks (outcome_conn (write_sample env0 audio_conn 0 False True ([1], 0))) ! 0) =
     0x100000000 \<and>
   origin (tracks (outcome_conn (write_sample env0 audio_conn 0 False True ([1], 0))) ! 0) \<noteq> 0 \<and>
   origin (tracks (outcome_conn (write_sample env0
     (set_track audio_conn 0 ((tracks audio_conn ! 0)\<lparr>origin := 0x100000000\<rparr>))
     0 False True ([2], 960))) ! 0) = 0x100000000 \<and>
   trace (outcome_env (write_sample env0
     (set_track audio_conn 0 ((tracks audio_conn ! 0)\<lparr>origin := 0x100000000\<rparr>))
     0 False True ([2], 960))) =
     [BlockWritten (BlockWriter ''rec/room/T.webm'' 0) True 20 [2]] \<and>
   origin (tracks (outcome_conn (body env0
     (set_track audio_conn 0 ((tracks audio_conn ! 0)\<lparr>origin := 0x100000000\<rparr>))
     0 False ([2], 960))) ! 0) = 0x100000000 \<and>
   origin (tracks (snd (WriteRTPs env0
     (set_track audio_conn 0 ((tracks audio_conn ! 0)\<lparr>origin := 0x100000000\<rparr>))
     [(0, \<lparr>clonable = True, completes = [([2], 960), ([3], 1920)]\<rparr>),
      (0, \<lparr>clonable = True, completes = [([4], 0)]\<rparr>)])) ! 0) = 0x100000000"
proof -
  let ?w = "BlockWriter ''rec/room/T.webm'' 0"
  let ?c2 = "set_track audio_conn 0 ((tracks audio_conn ! 0)\<lparr>origin := 0x100000000\<rparr>)"
  let ?ps = "[(0, \<lparr>clonable = True, completes = [([2], 960), ([3], 1920)]\<rparr>),
      (0 :: nat, \<lparr>clonable = True, completes = [([4], 0)]\<rparr>)]"
  have p1: "0 < length (tracks audio_conn) \<and> writer (tracks audio_conn ! 0) = Some ?w"
    by (simp add: audio_conn_track newTrack_def)
  have z1: "origin (tracks audio_conn ! 0) = 0"
    by (simp add: audio_conn_track newTrack_def)
  have a: "(ucast (0 :: 32 word) OR push_bit 32 1 :: 64 word) = 0x100000000" by simp
  note T1 = origin_recorded_once [where E = env0 and c = audio_conn and i = 0 and kn = False
      and kf = True and data = "[1]" and ts = 0 and w = ?w, THEN conjunct1, rule_format, OF p1]
  have 1: "origin (tracks (outcome_conn (write_sample env0 audio_conn 0 False True ([1], 0))) ! 0) =
     0x100000000"
    using T1 [THEN conjunct2, THEN conjunct1, rule_format, OF z1, THEN conjunct1]
    unfolding a .
  have 2: "origin (tracks (outcome_conn (write_sample env0 audio_conn 0 False True ([1], 0))) ! 0)
      \<noteq> 0"
    using T1 [THEN conjunct1] .
  have p2: "0 < length (tracks ?c2) \<and> writer (tracks ?c2 ! 0) = Some ?w"
    by (simp add: set_track_def audio_conn_track newTrack_def)
  have o2: "origin (tracks ?c2 ! 0) = 0x100000000"
    by (simp add: set_track_def audio_conn_track)
  have nz2: "origin (tracks ?c2 ! 0) \<noteq> 0" unfolding o2 by simp
  have r2: "ClockRate (Codec (remote (tracks ?c2 ! 0))) = 48000"
    by (simp add: set_track_def audio_conn_track newTrack_def audio0_def opus_def)
  have cr2: "origin (tracks ?c2 ! 0) \<noteq> 0 \<and>
      1000 \<le> unat (ClockRate (Codec (remote (tracks ?c2 ! 0))))"
    using nz2 unfolding r2 by simp
  note T2 = origin_recorded_once [where E = env0 and c = ?c2 and i = 0 and kn = False
      and kf = True and data = "[2]" and ts = 960 and w = ?w and ps = ?ps]
  note T2a = T2 [THEN conjunct1, rule_format, OF p2]
  have 3: "origin (tracks (outcome_conn (write_sample env0 ?c2 0 False True ([2], 960))) ! 0) =
     0x100000000"
    using T2a [THEN conjunct2, THEN conjunct2, THEN conjunct1, rule_format, OF nz2]
    unfolding o2 .
  have d: "int (unat ((960 :: 32 word) - ucast (0x100000000 :: 64 word)) div
      (unat (48000 :: 32 word) div 1000)) = 20"
    by simp
  have tr0: "trace env0 = []" by (simp add: env0_def)
  have 4: "trace (outcome_env (write_sample env0 ?c2 0 False True ([2], 960))) =
     [BlockWritten ?w True 20 [2]]"
    using T2a [THEN conjunct2, THEN conjunct2, THEN conjunct2, rule_format, OF cr2]
    unfolding o2 r2 d tr0 by simp
  have l2: "0 < length (tracks ?c2)" using p2 by simp
  have 5: "origin (tracks (outcome_conn (body env0 ?c2 0 False ([2], 960))) ! 0) = 0x100000000"
    using T2 [THEN conjunct2, THEN conjunct1, rule_format, OF l2 l2 nz2] unfolding o2 .
  have all: "\<forall>x \<in> set ?ps. fst x < length (tracks ?c2)"
    using l2 by simp
  have 6: "origin (tracks (snd (WriteRTPs env0 ?c2 ?ps)) ! 0) = 0x100000000"
    using T2 [THEN conjunct2, THEN conjunct2, rule_format, OF all [rule_format] l2 nz2] unfolding o2 .
  show ?thesis
    by (intro conjI) (rule 1 2 3 4 5 6)+
qed

subsection \<open>Construction of a connection recorder\<close>

lemma newTracks_no_video:
  "\<forall>r \<in> set xs. \<not> is_video r \<Longrightarrow>
   newTracks E g hv acc (xs @ ys) =
     newTracks (E\<lparr>trace := trace E @ map (construction_event g) xs\<rparr>) g hv
       (acc @ map newTrack (filter (\<lambda>r. kind_of (Codec r) \<noteq> Unsupported) xs)) ys"
proof (induction xs arbitrary: E acc)
  case Nil
  then show ?case by simp
next
  case (Cons r xs)
  then have nv: "kind_of (Codec r) \<noteq> VP8" and rest: "\<forall>r \<in> set xs. \<not> is_video r"
    by (simp_all add: is_video_def)
  show ?case
  proof (cases "kind_of (Codec r)")
    case Opus
    then show ?thesis
      using Cons.IH [OF rest, of "emit (TrackAddLocal r) E" "acc @ [newTrack r]"]
      by (simp add: emit_def construction_event_def)
  next
    case VP8
    then show ?thesis using nv by simp
  next
    case Unsupported
    then show ?thesis
      using Cons.IH [OF rest,
          of "emit (WallOps g (''Cannot record codec '' @ MimeType (Codec r))) E" acc]
      by (simp add: emit_def construction_event_def)
  qed
qed

lemma newTracks_second_video:
  assumes "\<forall>r \<in> set mid. \<not> is_video r" and "is_video r2"
  shows "newTracks E g True acc (mid @ r2 # post) =
     (Inl MultipleVideoTracks, E\<lparr>trace := trace E @ map (construction_event g) mid\<rparr>)"
  using assms(2) by (simp add: newTracks_no_video [OF assms(1)] is_video_def)

lemma newTracks_first_video:
  assumes "\<forall>r \<in> set pre. \<not> is_video r" and "is_video r1"
  shows "newTracks E g False acc (pre @ r1 # ys) =
     newTracks (E\<lparr>trace := trace E @ map (construction_event g) (pre @ [r1])\<rparr>) g True
       (acc @ map newTrack (filter (\<lambda>r. kind_of (Codec r) \<noteq> Unsupported) (pre @ [r1]))) ys"
  using assms(2)
  by (simp add: newTracks_no_video [OF assms(1)] is_video_def emit_def construction_event_def)

lemma newTracks_all_no_video:
  assumes "\<forall>r \<in> set xs. \<not> is_video r"
  shows "newTracks E g hv acc xs =
     (Inr (hv, acc @ map newTrack (filter (\<lambda>r. kind_of (Codec r) \<noteq> Unsupported) xs)),
      E\<lparr>trace := trace E @ map (construction_event g) xs\<rparr>)"
  using newTracks_no_video [OF assms, of E g hv acc "[]"] by simp

lemma two_videos:
  assumes "2 \<le> length (filter is_video rs)"
  obtains pre r1 mid r2 post where "rs = pre @ r1 # mid @ r2 # post"
    "\<forall>r \<in> set pre. \<not> is_video r" "is_video r1" "\<forall>r \<in> set mid. \<not> is_video r" "is_video r2"
proof -
  from assms obtain a b zs where f: "filter is_video rs = a # b # zs"
    by (cases "filter is_video rs"; cases "tl (filter is_video rs)") auto
  then obtain pre vs where 1: "rs = pre @ a # vs" "\<forall>r \<in> set pre. \<not> is_video r" "is_video a"
      "b # zs = filter is_video vs"
    unfolding filter_eq_Cons_iff by blast
  from 1(4) [symmetric] obtain mid post where 2: "vs = mid @ b # post"
      "\<forall>r \<in> set mid. \<not> is_video r" "is_video b"
    unfolding filter_eq_Cons_iff by blast
  show thesis using that [of pre a mid b post] 1 2 by simp
qed

lemma before_second_video_decomp:
  assumes "\<forall>r \<in> set pre. \<not> is_video r" "is_video r1" "\<forall>r \<in> set mid. \<not> is_video r" "is_video r2"
  shows "before_second_video (pre @ r1 # mid @ r2 # post) = pre @ r1 # mid"
proof -
  have a: "takeWhile (\<lambda>r. \<not> is_video r) (pre @ r1 # mid @ r2 # post) = pre"
    using assms(1,2) by (simp add: takeWhile_append2)
  have b: "dropWhile (\<lambda>r. \<not> is_video r) (pre @ r1 # mid @ r2 # post) = r1 # mid @ r2 # post"
    using assms(1,2) by (simp add: dropWhile_append2)
  have c: "takeWhile (\<lambda>r. \<not> is_video r) (mid @ r2 # post) = mid"
    using assms(3,4) by (simp add: takeWhile_append2)
  show ?thesis unfolding before_second_video_def a b using c by simp
qed

lemma before_second_video_one:
  "length (filter is_video rs) \<le> 1 \<Longrightarrow> before_second_video rs = rs"
proof -
  assume le: "length (filter is_video rs) \<le> 1"
  show ?thesis
  proof (cases "dropWhile (\<lambda>r. \<not> is_video r) rs")
    case Nil
    then have t: "takeWhile (\<lambda>r. \<not> is_video r) rs = rs"
      by (metis append_Nil2 takeWhile_dropWhile_id)
    show ?thesis unfolding before_second_video_def Nil t by simp
  next
    case (Cons r rest)
    have rs: "rs = takeWhile (\<lambda>r. \<not> is_video r) rs @ r # rest"
      using Cons by (metis takeWhile_dropWhile_id)
    have v: "is_video r" using Cons by (metis hd_dropWhile list.sel(1) list.distinct(1))
    have "filter is_video rs = filter is_video (takeWhile (\<lambda>r. \<not> is_video r) rs) @ r # filter is_video rest"
      using v by (subst rs) simp
    then have "filter is_video rest = []" using le by (cases "filter is_video rest") auto
    then have nv: "\<forall>x \<in> set rest. \<not> is_video x" by (simp add: filter_empty_conv)
    have "before_second_video rs = takeWhile (\<lambda>r. \<not> is_video r) rs @ r # rest"
      unfolding before_second_video_def Cons using nv by simp
    then show ?thesis using rs by simp
  qed
qed

lemma newTracks_one_video:
  "length (filter is_video rs) \<le> 1 \<Longrightarrow>
   newTracks E g False [] rs =
     (Inr (filter is_video rs \<noteq> [],
           map newTrack (filter (\<lambda>r. kind_of (Codec r) \<noteq> Unsupported) rs)),
      E\<lparr>trace := trace E @ map (construction_event g) rs\<rparr>)"
proof -
  assume le: "length (filter is_video rs) \<le> 1"
  show ?thesis
  proof (cases "filter is_video rs")
    case Nil
    then have "\<forall>r \<in> set rs. \<not> is_video r" by (simp add: filter_empty_conv)
    from newTracks_all_no_video [OF this, of E g False "[]"] Nil show ?thesis by simp
  next
    case (Cons a zs)
    then obtain pre vs where 1: "rs = pre @ a # vs" "\<forall>r \<in> set pre. \<not> is_video r" "is_video a"
      "zs = filter is_video vs"
      unfolding filter_eq_Cons_iff by blast
    have "zs = []" using le Cons by simp
    then have nv: "\<forall>r \<in> set vs. \<not> is_video r" using 1(4) by (simp add: filter_empty_conv)
    have k: "kind_of (Codec a) \<noteq> Unsupported" using 1(3) by (simp add: is_video_def)
    show ?thesis
      unfolding 1(1) newTracks_first_video [OF 1(2,3)] newTracks_all_no_video [OF nv]
      using 1(3) k by simp
  qed
qed

lemma video_registrations_append [simp]:
  "video_registrations (xs @ ys) = video_registrations xs @ video_registrations ys"
  by (induction xs rule: video_registrations.induct) simp_all

lemma unregistrations_append [simp]:
  "unregistrations (xs @ ys) = unregistrations xs @ unregistrations ys"
  by (induction xs rule: unregistrations.induct) simp_all

lemma video_registrations_construction:
  "video_registrations (map (construction_event g) rs) = filter is_video rs"
  by (induction rs) (auto simp: construction_event_def is_video_def split: kind.splits)

lemma unregistrations_construction:
  "unregistrations (map (construction_event g) rs) = []"
  by (induction rs) (auto simp: construction_event_def split: kind.splits)


lemma video_tracks_built:
  "length (filter (\<lambda>t. is_video (remote t))
     (map newTrack (filter (\<lambda>r. kind_of (Codec r) \<noteq> Unsupported) rs))) \<le>
   length (filter is_video rs)"
proof -
  have "filter (\<lambda>t. is_video (remote t)) (map newTrack xs) = map newTrack (filter is_video xs)"
    for xs
    by (induction xs) (simp_all add: newTrack_def)
  then have "length (filter (\<lambda>t. is_video (remote t))
     (map newTrack (filter (\<lambda>r. kind_of (Codec r) \<noteq> Unsupported) rs))) =
     length (filter is_video (filter (\<lambda>r. kind_of (Codec r) \<noteq> Unsupported) rs))"
    by simp
  also have "\<dots> = length (filter (\<lambda>r. kind_of (Codec r) \<noteq> Unsupported) (filter is_video rs))"
    by (simp add: conj_commute)
  also have "\<dots> \<le> length (filter is_video rs)" by (rule length_filter_le)
  finally show ?thesis .
qed

lemma newDiskConn_two_videos:
  assumes "2 \<le> length (filter is_video rs)"
  shows "newDiskConn E cl dir lbl u rs =
        (Inl MultipleVideoTracks,
         E\<lparr>trace := trace E @ map (construction_event (cgroup cl)) (before_second_video rs)\<rparr>)"
    and "filter is_video (before_second_video rs) = [hd (filter is_video rs)]"
proof -
  from assms obtain pre r1 mid r2 post where d: "rs = pre @ r1 # mid @ r2 # post"
    and p: "\<forall>r \<in> set pre. \<not> is_video r" and v1: "is_video r1"
    and m: "\<forall>r \<in> set mid. \<not> is_video r" and v2: "is_video r2"
    by (rule two_videos)
  have b: "before_second_video rs = pre @ r1 # mid"
    unfolding d by (rule before_second_video_decomp [OF p v1 m v2])
  have nt: "newTracks E (cgroup cl) False [] rs =
      (Inl MultipleVideoTracks,
       E\<lparr>trace := trace E @ map (construction_event (cgroup cl)) (pre @ r1 # mid)\<rparr>)"
    unfolding d newTracks_first_video [OF p v1] newTracks_second_video [OF m v2] by simp
  show "newDiskConn E cl dir lbl u rs =
        (Inl MultipleVideoTracks,
         E\<lparr>trace := trace E @ map (construction_event (cgroup cl)) (before_second_video rs)\<rparr>)"
    unfolding b newDiskConn_def nt by simp
  have fp: "filter is_video pre = []" using p by (simp add: filter_empty_conv)
  have fm: "filter is_video mid = []" using m by (simp add: filter_empty_conv)
  show "filter is_video (before_second_video rs) = [hd (filter is_video rs)]"
    unfolding b unfolding d using v1 v2 fp fm by simp
qed

lemma newDiskConn_one_video:
  assumes "length (filter is_video rs) \<le> 1"
  shows "newDiskConn E cl dir lbl u rs =
        ((case AddLocal_err u of
            Some m \<Rightarrow> Inl (UpError m)
          | None \<Rightarrow>
              Inr \<lparr>client_group = cgroup cl, directory = dir, label = lbl,
                   hasVideo = (filter is_video rs \<noteq> []), ofile = None, conn_remote = u,
                   tracks = map newTrack (filter (\<lambda>r. kind_of (Codec r) \<noteq> Unsupported) rs),
                   width = 0, height = 0, lastWarning = 0\<rparr>),
         E\<lparr>trace := trace E @ map (construction_event (cgroup cl)) rs @ [UpAddLocal u]\<rparr>)"
  unfolding newDiskConn_def newTracks_one_video [OF assms]
  by (simp add: emit_def split: option.splits)

text \<open>
  Claim C7.  When the list of tracks has two or more VP8 tracks, newDiskConn returns
  the error ``multiple video tracks not supported'' and no connection recorder.  By
  then it has gone through the tracks that come before the second video track: the
  track recorder of the first video track has been registered with its track, and
  nothing is unregistered.  With at most one VP8 track the construction goes through
  the whole list and fails only if the connection of the relay refuses the recorder.
  A connection recorder that is returned has at most one video track recorder, and
  no construction registers more than one.
\<close>

theorem multiple_video_tracks:
  "(2 \<le> length (filter is_video rs) \<longrightarrow>
      newDiskConn E cl dir lbl u rs =
        (Inl MultipleVideoTracks,
         E\<lparr>trace := trace E @ map (construction_event (cgroup cl)) (before_second_video rs)\<rparr>) \<and>
      Error MultipleVideoTracks = ''multiple video tracks not supported'' \<and>
      video_registrations (map (construction_event (cgroup cl)) (before_second_video rs)) =
        [hd (filter is_video rs)] \<and>
      unregistrations (map (construction_event (cgroup cl)) (before_second_video rs)) = []) \<and>
   (length (filter is_video rs) \<le> 1 \<longrightarrow>
      newDiskConn E cl dir lbl u rs =
        ((case AddLocal_err u of
            Some m \<Rightarrow> Inl (UpError m)
          | None \<Rightarrow>
              Inr \<lparr>client_group = cgroup cl, directory = dir, label = lbl,
                   hasVideo = (filter is_video rs \<noteq> []), ofile = None, conn_remote = u,
                   tracks = map newTrack (filter (\<lambda>r. kind_of (Codec r) \<noteq> Unsupported) rs),
                   width = 0, height = 0, lastWarning = 0\<rparr>),
         E\<lparr>trace := trace E @ map (construction_event (cgroup cl)) rs @ [UpAddLocal u]\<rparr>)) \<and>
   (\<forall>d E'. newDiskConn E cl dir lbl u rs = (Inr d, E') \<longrightarrow>
      length (filter (\<lambda>t. is_video (remote t)) (tracks d)) \<le> 1) \<and>
   length (video_registrations
     (drop (length (trace E)) (trace (snd (newDiskConn E cl dir lbl u rs))))) \<le> 1"
proof (intro conjI impI allI)
  assume two: "2 \<le> length (filter is_video rs)"
  show "newDiskConn E cl dir lbl u rs =
        (Inl MultipleVideoTracks,
         E\<lparr>trace := trace E @ map (construction_event (cgroup cl)) (before_second_video rs)\<rparr>)"
    by (rule newDiskConn_two_videos(1) [OF two])
  show "video_registrations (map (construction_event (cgroup cl)) (before_second_video rs)) =
        [hd (filter is_video rs)]"
    unfolding video_registrations_construction by (rule newDiskConn_two_videos(2) [OF two])
  show "unregistrations (map (construction_event (cgroup cl)) (before_second_video rs)) = []"
    by (rule unregistrations_construction)
next
  show "Error MultipleVideoTracks = ''multiple video tracks not supported''" by simp
next
  assume "length (filter is_video rs) \<le> 1"
  then show "newDiskConn E cl dir lbl u rs =
        ((case AddLocal_err u of
            Some m \<Rightarrow> Inl (UpError m)
          | None \<Rightarrow>
              Inr \<lparr>client_group = cgroup cl, directory = dir, label = lbl,
                   hasVideo = (filter is_video rs \<noteq> []), ofile = None, conn_remote = u,
                   tracks = map newTrack (filter (\<lambda>r. kind_of (Codec r) \<noteq> Unsupported) rs),
                   width = 0, height = 0, lastWarning = 0\<rparr>),
         E\<lparr>trace := trace E @ map (construction_event (cgroup cl)) rs @ [UpAddLocal u]\<rparr>)"
    by (rule newDiskConn_one_video)
next
  fix d E'
  assume r: "newDiskConn E cl dir lbl u rs = (Inr d, E')"
  have le: "length (filter is_video rs) \<le> 1"
  proof (rule ccontr)
    assume "\<not> length (filter is_video rs) \<le> 1"
    then have "2 \<le> length (filter is_video rs)" by simp
    from newDiskConn_two_videos(1) [OF this, of E cl dir lbl u] r show False by simp
  qed
  have "tracks d = map newTrack (filter (\<lambda>r. kind_of (Codec r) \<noteq> Unsupported) rs)"
    using r unfolding newDiskConn_one_video [OF le]
    by (cases "AddLocal_err u") auto
  then show "length (filter (\<lambda>t. is_video (remote t)) (tracks d)) \<le> 1"
    using video_tracks_built [of rs] le by simp
next
  show "length (video_registrations
     (drop (length (trace E)) (trace (snd (newDiskConn E cl dir lbl u rs))))) \<le> 1"
  proof (cases "length (filter is_video rs) \<le> 1")
    case True
    show ?thesis
      unfolding newDiskConn_one_video [OF True]
      using True by (simp add: video_registrations_construction)
  next
    case False
    then have two: "2 \<le> length (filter is_video rs)" by simp
    show ?thesis
      unfolding newDiskConn_two_videos(1) [OF two]
      by (simp add: video_registrations_construction newDiskConn_two_videos(2) [OF two])
  qed
qed

lemma kind_h264: "kind_of (Codec h264) = Unsupported"
  unfolding h264_def by code_simp

lemma is_video_inputs:
  "\<not> is_video audio0" "is_video video1" "is_video video2" "\<not> is_video h264"
  by (simp_all add: is_video_def audio0_def video1_def video2_def kind_of_opus kind_of_vp8 kind_h264)

theorem multiple_video_tracks_witness:
  "newDiskConn env0 client0 ''rec/room'' [] up0 [audio0, video1, h264, video2, audio0] =
     (Inl MultipleVideoTracks,
      env0\<lparr>trace := [TrackAddLocal audio0, TrackAddLocal video1,
                      WallOps group0 ''Cannot record codec video/H264'']\<rparr>) \<and>
   before_second_video [audio0, video1, h264, video2, audio0] = [audio0, video1, h264] \<and>
   video_registrations (map (construction_event group0) [audio0, video1, h264]) = [video1] \<and>
   unregistrations (map (construction_event group0) [audio0, video1, h264]) = [] \<and>
   newDiskConn env0 client0 ''rec/room'' [] up0 [audio0, video1, h264] =
     (Inr ((conn0 [audio0, video1])\<lparr>hasVideo := True\<rparr>),
      env0\<lparr>trace := [TrackAddLocal audio0, TrackAddLocal video1,
                      WallOps group0 ''Cannot record codec video/H264'', UpAddLocal up0]\<rparr>) \<and>
   length (filter (\<lambda>t. is_video (remote t)) (tracks ((conn0 [audio0, video1])\<lparr>hasVideo := True\<rparr>))) \<le> 1"
proof -
  let ?rs = "[audio0, video1, h264, video2, audio0]"
  let ?rs1 = "[audio0, video1, h264]"
  have two: "2 \<le> length (filter is_video ?rs)" by (simp add: is_video_inputs)
  have one: "length (filter is_video ?rs1) \<le> 1" by (simp add: is_video_inputs)
  have b: "before_second_video ?rs = ?rs1"
    by (simp add: before_second_video_def is_video_inputs)
  have g: "cgroup client0 = group0" by (simp add: client0_def)
  have ev: "map (construction_event group0) ?rs1 =
      [TrackAddLocal audio0, TrackAddLocal video1, WallOps group0 ''Cannot record codec video/H264'']"
    by (simp add: construction_event_def kind_h264)
      (simp add: audio0_def video1_def kind_of_opus kind_of_vp8 h264_def)
  have tr: "trace env0 = []" by (simp add: env0_def)
  have h: "hd (filter is_video ?rs) = video1" by (simp add: is_video_inputs)
  note T = multiple_video_tracks [where E = env0 and cl = client0 and dir = "''rec/room''"
      and lbl = "[]" and u = up0 and rs = ?rs, THEN conjunct1, rule_format, OF two]
  have 1: "newDiskConn env0 client0 ''rec/room'' [] up0 ?rs =
     (Inl MultipleVideoTracks,
      env0\<lparr>trace := [TrackAddLocal audio0, TrackAddLocal video1,
                      WallOps group0 ''Cannot record codec video/H264'']\<rparr>)"
    using T [THEN conjunct1] unfolding b g ev tr by simp
  have 2: "video_registrations (map (construction_event group0) ?rs1) = [video1]"
    using T [THEN conjunct2, THEN conjunct2, THEN conjunct1] unfolding b g h .
  have 3: "unregistrations (map (construction_event group0) ?rs1) = []"
    using T [THEN conjunct2, THEN conjunct2, THEN conjunct2] unfolding b g .
  note U = multiple_video_tracks [where E = env0 and cl = client0 and dir = "''rec/room''"
      and lbl = "[]" and u = up0 and rs = ?rs1, THEN conjunct2]
  have c: "\<lparr>client_group = group0, directory = ''rec/room'', label = [],
        hasVideo = (filter is_video ?rs1 \<noteq> []), ofile = None, conn_remote = up0,
        tracks = map newTrack (filter (\<lambda>r. kind_of (Codec r) \<noteq> Unsupported) ?rs1),
        width = 0, height = 0, lastWarning = 0\<rparr> = (conn0 [audio0, video1])\<lparr>hasVideo := True\<rparr>"
    by (simp add: conn0_def is_video_inputs kind_h264)
      (simp add: audio0_def video1_def kind_of_opus kind_of_vp8)
  have a: "AddLocal_err up0 = None" by (simp add: up0_def)
  have 4: "newDiskConn env0 client0 ''rec/room'' [] up0 ?rs1 =
     (Inr ((conn0 [audio0, video1])\<lparr>hasVideo := True\<rparr>),
      env0\<lparr>trace := [TrackAddLocal audio0, TrackAddLocal video1,
                      WallOps group0 ''Cannot record codec video/H264'', UpAddLocal up0]\<rparr>)"
    using U [THEN conjunct1, rule_format, OF one] unfolding g ev tr a c by simp
  have 5: "length (filter (\<lambda>t. is_video (remote t))
      (tracks ((conn0 [audio0, video1])\<lparr>hasVideo := True\<rparr>))) \<le> 1"
    using U [THEN conjunct2, THEN conjunct1, rule_format, OF 4] .
  show ?thesis
    by (intro conjI) (rule 1 b 2 3 4 5)+
qed

subsection \<open>Closing the client\<close>

lemma closeWriters_events:
  "closeWriters E ts =
     (E\<lparr>trace := trace E @ map WriterClosed (List.map_filter writer ts)\<rparr>, map unset ts)"
proof (induction ts arbitrary: E)
  case Nil
  then show ?case by (simp add: map_filter_simps)
next
  case (Cons t ts)
  show ?case
  proof (cases "writer t")
    case None
    then have "unset t = t" by (simp add: unset_def)
    then show ?thesis using None Cons [of E] by (simp add: map_filter_simps)
  next
    case (Some w)
    then show ?thesis
      using Cons [of "emit (WriterClosed w) E"]
      by (simp add: map_filter_simps emit_def unset_def)
  qed
qed

lemma fold_emit:
  "fold (\<lambda>t. emit (f t)) ts E = E\<lparr>trace := trace E @ map f ts\<rparr>"
  by (induction ts arbitrary: E) (simp_all add: emit_def)

lemma Close_events:
  "Close E d = (E\<lparr>trace := trace E @ close_events d\<rparr>, d\<lparr>tracks := map unset (tracks d)\<rparr>)"
proof -
  have r: "map (\<lambda>t. TrackDelLocal (remote t)) (map unset ts) =
      map (\<lambda>t. TrackDelLocal (remote t)) ts" for ts
    by (simp add: unset_def)
  show ?thesis
    unfolding Close_def closeWriters_events
    by (simp add: fold_emit [where f = "\<lambda>t. TrackDelLocal (remote t)"] r emit_def
        close_events_def)
qed

lemma Client_Close_events:
  "fold (\<lambda>(k, d) E'. fst (Close E' d)) ds E =
     E\<lparr>trace := trace E @ concat (map (\<lambda>(k, d). close_events d) ds)\<rparr>"
  by (induction ds arbitrary: E) (auto simp: Close_events)

lemma PushConn_closed:
  "closed cl \<Longrightarrow>
   PushConn E cl g ident u rts lbl =
     ((if g = cgroup cl then Some DiskClientClosed else None), E, cl)"
  by (simp add: PushConn_def)

lemma PushConns_closed:
  "closed cl \<Longrightarrow>
   PushConns E cl calls =
     (map (\<lambda>(g, ident, u, rts, lbl). if g = cgroup cl then Some DiskClientClosed else None)
        calls, E, cl)"
proof (induction calls)
  case Nil
  then show ?case by simp
next
  case (Cons a calls)
  obtain g ident u rts lbl where a: "a = (g, ident, u, rts, lbl)" by (cases a) auto
  show ?case unfolding a using Cons by (simp add: PushConn_closed)
qed

text \<open>
  Claim C9, as the code has it.  Close closes every connection recorder that the
  client holds (the order is that of the map, here of the list): each is taken off
  its connection, its writers are closed and its track recorders are taken off their
  tracks; the client is left closed and holds nothing, and Kick does the same and
  then removes the client from its group.  On a closed client every PushConn for the
  group of the client returns the error ``disk client is closed'' and changes
  neither the client nor the world, however many calls follow; a PushConn that names
  another group returns no error and does nothing, as on an open client, because the
  test of the group comes first.
\<close>

theorem closed_client_refuses:
  "fst (Client_Close E cl) =
     E\<lparr>trace := trace E @ concat (map (\<lambda>(k, d). close_events d) (down cl))\<rparr> \<and>
   snd (Client_Close E cl) = cl\<lparr>down := [], closed := True\<rparr> \<and>
   Kick E cl =
     (emit (DelClient (cid cl)) (fst (Client_Close E cl)), snd (Client_Close E cl)) \<and>
   (\<forall>d \<in> snd ` set (down cl).
      UpDelLocal (conn_remote d) \<in> set (trace (fst (Client_Close E cl))) \<and>
      (\<forall>t \<in> set (tracks d).
         TrackDelLocal (remote t) \<in> set (trace (fst (Client_Close E cl))) \<and>
         (\<forall>w. writer t = Some w \<longrightarrow>
            WriterClosed w \<in> set (trace (fst (Client_Close E cl)))))) \<and>
   PushConn E' (snd (Client_Close E cl)) g ident u rts lbl =
     ((if g = cgroup cl then Some DiskClientClosed else None), E', snd (Client_Close E cl)) \<and>
   PushConn E' (snd (Kick E cl)) g ident u rts lbl =
     ((if g = cgroup cl then Some DiskClientClosed else None), E', snd (Kick E cl)) \<and>
   (closed cl' \<longrightarrow>
      PushConn E' cl' g ident u rts lbl =
        ((if g = cgroup cl' then Some DiskClientClosed else None), E', cl') \<and>
      PushConns E' cl' calls =
        (map (\<lambda>(g, ident, u, rts, lbl). if g = cgroup cl' then Some DiskClientClosed else None)
           calls, E', cl'))"
proof (intro conjI impI ballI allI)
  show "PushConn E' (snd (Client_Close E cl)) g ident u rts lbl =
     ((if g = cgroup cl then Some DiskClientClosed else None), E', snd (Client_Close E cl))"
    by (simp add: PushConn_closed Client_Close_def)
  show "PushConn E' (snd (Kick E cl)) g ident u rts lbl =
     ((if g = cgroup cl then Some DiskClientClosed else None), E', snd (Kick E cl))"
    by (simp add: PushConn_closed Client_Close_def Kick_def)
  show e: "fst (Client_Close E cl) =
     E\<lparr>trace := trace E @ concat (map (\<lambda>(k, d). close_events d) (down cl))\<rparr>"
    by (simp add: Client_Close_def Client_Close_events)
  show "snd (Client_Close E cl) = cl\<lparr>down := [], closed := True\<rparr>"
    by (simp add: Client_Close_def)
  show "Kick E cl =
     (emit (DelClient (cid cl)) (fst (Client_Close E cl)), snd (Client_Close E cl))"
    by (simp add: Kick_def Client_Close_def)
  {
    fix d assume "d \<in> snd ` set (down cl)"
    then obtain k where kd: "(k, d) \<in> set (down cl)" by auto
    then have sub: "set (close_events d) \<subseteq> set (trace (fst (Client_Close E cl)))"
      unfolding e by force
    show "UpDelLocal (conn_remote d) \<in> set (trace (fst (Client_Close E cl)))"
      using sub by (auto simp: close_events_def)
    fix t assume t: "t \<in> set (tracks d)"
    show "TrackDelLocal (remote t) \<in> set (trace (fst (Client_Close E cl)))"
      using sub t by (auto simp: close_events_def)
    fix w assume "writer t = Some w"
    then have "w \<in> set (List.map_filter writer (tracks d))"
      using t by (force simp: map_filter_def)
    then show "WriterClosed w \<in> set (trace (fst (Client_Close E cl)))"
      using sub by (auto simp: close_events_def)
  }
next
  assume "closed cl'"
  then show "PushConn E' cl' g ident u rts lbl =
        ((if g = cgroup cl' then Some DiskClientClosed else None), E', cl')"
    by (rule PushConn_closed)
next
  assume "closed cl'"
  then show "PushConns E' cl' calls =
        (map (\<lambda>(g, ident, u, rts, lbl). if g = cgroup cl' then Some DiskClientClosed else None)
           calls, E', cl')"
    by (rule PushConns_closed)
qed


lemma recording_client_down: "down recording_client = [(''up'', audio_conn)]"
  by (simp add: recording_client_def)

lemma audio_conn_remote: "conn_remote audio_conn = up0"
  by (simp add: audio_conn_def conn0_def)

lemma close_events_audio_conn:
  "close_events audio_conn =
     [UpDelLocal up0, WriterClosed (BlockWriter ''rec/room/T.webm'' 0), TrackDelLocal audio0]"
  by (simp add: close_events_def audio_conn_remote audio_conn_track map_filter_simps newTrack_def)

theorem closed_client_refuses_witness:
  "trace (fst (Client_Close env0 recording_client)) =
     [UpDelLocal up0, WriterClosed (BlockWriter ''rec/room/T.webm'' 0), TrackDelLocal audio0] \<and>
   snd (Client_Close env0 recording_client) = client0\<lparr>closed := True\<rparr> \<and>
   trace (fst (Kick env0 recording_client)) =
     [UpDelLocal up0, WriterClosed (BlockWriter ''rec/room/T.webm'' 0), TrackDelLocal audio0,
      DelClient ''c0''] \<and>
   UpDelLocal up0 \<in> set (trace (fst (Client_Close env0 recording_client))) \<and>
   TrackDelLocal audio0 \<in> set (trace (fst (Client_Close env0 recording_client))) \<and>
   WriterClosed (BlockWriter ''rec/room/T.webm'' 0) \<in>
     set (trace (fst (Client_Close env0 recording_client))) \<and>
   PushConn env0 (client0\<lparr>closed := True\<rparr>) group0 ''up'' (Some up0) [audio0] [] =
     (Some DiskClientClosed, env0, client0\<lparr>closed := True\<rparr>) \<and>
   PushConns env0 (client0\<lparr>closed := True\<rparr>)
     [(group0, ''up'', Some up0, [audio0], []), (group1, ''up'', Some up0, [audio0], []),
      (group0, ''v'', None, [], [])] =
     ([Some DiskClientClosed, None, Some DiskClientClosed], env0, client0\<lparr>closed := True\<rparr>)"
proof -
  let ?w = "BlockWriter ''rec/room/T.webm'' 0"
  let ?t = "(newTrack audio0)\<lparr>writer := Some ?w\<rparr>"
  let ?cc = "client0\<lparr>closed := True\<rparr>"
  note T = closed_client_refuses [where E = env0 and cl = recording_client and E' = env0
      and cl' = ?cc and g = group0 and ident = "''up''" and u = "Some up0"
      and rts = "[audio0]" and lbl = "[]"
      and calls = "[(group0, ''up'', Some up0, [audio0], []),
        (group1, ''up'', Some up0, [audio0], []), (group0, ''v'', None, [], [])]"]
  have tr: "trace env0 = []" by (simp add: env0_def)
  have 1: "trace (fst (Client_Close env0 recording_client)) =
     [UpDelLocal up0, WriterClosed ?w, TrackDelLocal audio0]"
    using T [THEN conjunct1]
    by (simp add: recording_client_down close_events_audio_conn tr)
  have 2: "snd (Client_Close env0 recording_client) = ?cc"
    using T [THEN conjunct2, THEN conjunct1] by (simp add: recording_client_def client0_def)
  have 3: "trace (fst (Kick env0 recording_client)) =
     [UpDelLocal up0, WriterClosed ?w, TrackDelLocal audio0, DelClient ''c0'']"
    using T [THEN conjunct2, THEN conjunct2, THEN conjunct1] 1
    by (simp add: emit_def recording_client_def client0_def)
  have d: "audio_conn \<in> snd ` set (down recording_client)"
    by (simp add: recording_client_down)
  note B = T [THEN conjunct2, THEN conjunct2, THEN conjunct2, THEN conjunct1, rule_format, OF d]
  have t: "?t \<in> set (tracks audio_conn)" by (simp add: audio_conn_track)
  have w: "writer ?t = Some ?w" by simp
  have r: "remote ?t = audio0" by (simp add: newTrack_def)
  have 4: "UpDelLocal up0 \<in> set (trace (fst (Client_Close env0 recording_client)))"
    using B [THEN conjunct1] unfolding audio_conn_remote .
  have 5: "TrackDelLocal audio0 \<in> set (trace (fst (Client_Close env0 recording_client)))"
    using B [THEN conjunct2, rule_format, OF t, THEN conjunct1] unfolding r .
  have 6: "WriterClosed ?w \<in> set (trace (fst (Client_Close env0 recording_client)))"
    using B [THEN conjunct2, rule_format, OF t, THEN conjunct2, rule_format, OF w] .
  have c: "closed ?cc" by simp
  have g: "cgroup ?cc = group0" "group1 \<noteq> group0"
    by (simp_all add: client0_def group0_def group1_def)
  note P = T [THEN conjunct2, THEN conjunct2, THEN conjunct2, THEN conjunct2, THEN conjunct2,
      THEN conjunct2, rule_format, OF c]
  have 7: "PushConn env0 ?cc group0 ''up'' (Some up0) [audio0] [] =
     (Some DiskClientClosed, env0, ?cc)"
    using P [THEN conjunct1] unfolding g(1) by simp
  have 8: "PushConns env0 ?cc
     [(group0, ''up'', Some up0, [audio0], []), (group1, ''up'', Some up0, [audio0], []),
      (group0, ''v'', None, [], [])] =
     ([Some DiskClientClosed, None, Some DiskClientClosed], env0, ?cc)"
    using P [THEN conjunct2] unfolding g(1) using g(2) by simp
  show ?thesis
    by (intro conjI) (rule 1 2 3 4 5 6 7 8)+
qed

text \<open>
  A call of PushConn on a closed client that does not fail: the one that names a group
  other than the client's.
\<close>

theorem attach_for_another_group_after_close:
  "closed (snd (Client_Close env0 recording_client)) \<and>
   cgroup (snd (Client_Close env0 recording_client)) = group0 \<and>
   PushConn (fst (Client_Close env0 recording_client)) (snd (Client_Close env0 recording_client))
     group1 ''up'' (Some up0) [audio0] [] =
     (None, fst (Client_Close env0 recording_client), snd (Client_Close env0 recording_client)) \<and>
   fst (PushConn (fst (Client_Close env0 recording_client))
     (snd (Client_Close env0 recording_client)) group1 ''up'' (Some up0) [audio0] []) \<noteq>
     Some DiskClientClosed"
  by (simp add: PushConn_def Client_Close_def recording_client_def client0_def group0_def
      group1_def)

end
